(* ===== verification/Prelude.thy ===== *)
theory Prelude
  imports Main "HOL-Library.Word"
begin

text \<open>
  Shared vocabulary of the development: Go strings as byte strings (\<^typ>\<open>string\<close> is a list
  of \<^typ>\<open>char\<close>, and a \<^typ>\<open>char\<close> is a byte), Go's 64-bit \<open>int\<close>, decimal rendering (the
  \<open>%d\<close> verb), the string helpers of the standard library the code calls
  (\<open>strings.Cut\<close>, \<open>strings.TrimRight\<close>, \<open>textproto.TrimString\<close>), the generic lemmas
  about lists and characters the components use, and the locale of forward simulations.  The collections declared first gather
  the facts that component proofs unfold together.
\<close>

named_theorems frame_simps \<open>what an operation leaves unchanged\<close>
named_theorems eval_defs \<open>definitions unfolded when a concrete input is evaluated\<close>

type_synonym go_int = "64 word"

abbreviation byte :: "char \<Rightarrow> nat" where
  "byte c \<equiv> of_char c"

abbreviation chr :: "nat \<Rightarrow> char" where
  "chr n \<equiv> char_of n"

lemma byte_lt [simp]: "byte c < 256"
  by (metis char_of_char of_char_of mod_less_divisor zero_less_numeral)

lemma byte_chr [simp]: "n < 256 \<Longrightarrow> byte (chr n) = n"
  by (simp add: of_char_of)

lemma byte_eq_iff: "byte c = byte d \<longleftrightarrow> c = d"
  by (metis char_of_char)

lemma chr_byte [simp]: "chr (byte c) = c"
  by simp

text \<open>Scanning up to a separator that the scanned part does not hold.\<close>

lemma takeWhile_sep [simp]: "c \<notin> set a \<Longrightarrow> takeWhile (\<lambda>x. x \<noteq> c) (a @ c # b) = a"
  by (induction a) auto

lemma dropWhile_sep [simp]: "c \<notin> set a \<Longrightarrow> dropWhile (\<lambda>x. x \<noteq> c) (a @ c # b) = c # b"
  by (induction a) auto

lemma takeWhile_absent [simp]: "c \<notin> set a \<Longrightarrow> takeWhile (\<lambda>x. x \<noteq> c) a = a"
  by (induction a) auto

lemma dropWhile_absent [simp]: "c \<notin> set a \<Longrightarrow> dropWhile (\<lambda>x. x \<noteq> c) a = []"
  by (induction a) auto

lemma dropWhile_hd: "s \<noteq> [] \<Longrightarrow> \<not> P (hd s) \<Longrightarrow> dropWhile P s = s"
  by (cases s) auto

subsection \<open>Decimal rendering\<close>

definition digit_char :: "nat \<Rightarrow> char" where
  "digit_char d = chr (48 + d)"

definition is_digit :: "char \<Rightarrow> bool" where
  "is_digit c \<longleftrightarrow> 48 \<le> byte c \<and> byte c \<le> 57"

definition digit_val :: "char \<Rightarrow> nat" where
  "digit_val c = byte c - 48"

fun nat_dec :: "nat \<Rightarrow> string" where
  "nat_dec n = (if n < 10 then [digit_char n] else nat_dec (n div 10) @ [digit_char (n mod 10)])"

declare nat_dec.simps [simp del]

definition int_dec :: "int \<Rightarrow> string" where
  "int_dec i = (if i < 0 then ''-'' @ nat_dec (nat (- i)) else nat_dec (nat i))"

text \<open>The value of a run of decimal digits, most significant first.\<close>

definition dec_val :: "string \<Rightarrow> nat" where
  "dec_val s = foldl (\<lambda>a c. 10 * a + digit_val c) 0 s"

lemma digit_char_props [simp]:
  assumes "d < 10"
  shows "is_digit (digit_char d)" and "digit_val (digit_char d) = d"
  using assms by (simp_all add: digit_char_def is_digit_def digit_val_def)

lemma nat_dec_nonempty [simp]: "nat_dec n \<noteq> []"
  by (subst nat_dec.simps) simp

lemma nat_dec_digits: "list_all is_digit (nat_dec n)"
proof (induction n rule: nat_dec.induct)
  case (1 n)
  then show ?case by (subst nat_dec.simps) auto
qed

lemma dec_val_nat_dec [simp]: "dec_val (nat_dec n) = n"
proof (induction n rule: nat_dec.induct)
  case (1 n)
  then show ?case by (subst nat_dec.simps) (auto simp: dec_val_def)
qed

lemma nat_dec_inj: "nat_dec m = nat_dec n \<longleftrightarrow> m = n"
  by (metis dec_val_nat_dec)

lemma digit_not_in: "is_digit c \<Longrightarrow> c \<noteq> CHR ''-''"
  by (auto simp: is_digit_def)

lemma nat_dec_set: "c \<in> set (nat_dec n) \<Longrightarrow> is_digit c"
  using nat_dec_digits by (auto simp: list_all_iff)

lemma int_dec_set: "c \<in> set (int_dec i) \<Longrightarrow> is_digit c \<or> c = CHR ''-''"
  by (auto simp: int_dec_def nat_dec_set split: if_splits)

lemma int_dec_nonempty [simp]: "int_dec i \<noteq> []"
  by (simp add: int_dec_def)

lemma hd_nat_dec: "is_digit (hd (nat_dec n))"
  by (meson list.set_sel(1) nat_dec_nonempty nat_dec_set)

lemma int_dec_inj: "int_dec i = int_dec j \<longleftrightarrow> i = j"
proof -
  have neg: "CHR ''-'' # nat_dec m \<noteq> nat_dec n" for m n
    by (metis digit_not_in hd_nat_dec list.sel(1))
  then show ?thesis
    by (auto simp: int_dec_def nat_dec_inj neg neg [symmetric] split: if_splits)
qed

subsection \<open>Library string operations\<close>

text \<open>\<open>strings.Cut(s, sep)\<close> for a one-byte separator: the text before the first separator, the
  text after it, and whether it was found.\<close>

definition cut_at :: "char \<Rightarrow> string \<Rightarrow> string \<times> string \<times> bool" where
  "cut_at c s = (takeWhile (\<lambda>x. x \<noteq> c) s, drop 1 (dropWhile (\<lambda>x. x \<noteq> c) s), c \<in> set s)"

text \<open>\<open>strings.TrimRight(s, cutset)\<close> for a one-byte cutset.\<close>

definition trim_right :: "char \<Rightarrow> string \<Rightarrow> string" where
  "trim_right c s = rev (dropWhile (\<lambda>x. x = c) (rev s))"

definition is_ascii_space :: "char \<Rightarrow> bool" where
  "is_ascii_space c \<longleftrightarrow> byte c = 32 \<or> byte c = 9 \<or> byte c = 10 \<or> byte c = 13"

text \<open>\<open>textproto.TrimString\<close>: ASCII white space removed at both ends.\<close>

definition trim_string :: "string \<Rightarrow> string" where
  "trim_string s = rev (dropWhile is_ascii_space (rev (dropWhile is_ascii_space s)))"

lemma cut_at_append:
  "c \<notin> set a \<Longrightarrow> cut_at c (a @ c # b) = (a, b, True)"
  by (simp add: cut_at_def)

lemma cut_at_absent: "c \<notin> set a \<Longrightarrow> cut_at c a = (a, [], False)"
  by (simp add: cut_at_def)

lemma trim_right_set: "set (trim_right c s) \<subseteq> set s"
  by (auto simp: trim_right_def dest: set_dropWhileD)

lemma trim_right_id: "c \<notin> set s \<Longrightarrow> trim_right c s = s"
  unfolding trim_right_def by (cases "rev s") auto

lemma trim_right_append_pad:
  "c \<notin> set s \<Longrightarrow> trim_right c (s @ replicate n c) = s"
proof -
  assume a: "c \<notin> set s"
  have "dropWhile (\<lambda>x. x = c) (replicate n c @ rev s) = rev s"
    using a by (induction n) (cases "rev s", auto)
  then show ?thesis by (simp add: trim_right_def)
qed

lemma trim_string_id:
  assumes "s \<noteq> []" "\<not> is_ascii_space (hd s)" "\<not> is_ascii_space (last s)"
  shows "trim_string s = s"
  using assms by (simp add: trim_string_def dropWhile_hd hd_rev)

lemma last_dropWhile: "dropWhile P l \<noteq> [] \<Longrightarrow> last (dropWhile P l) = last l"
  by (induction l) auto

lemma trim_string_left:
  assumes "dropWhile is_ascii_space s = q" "q \<noteq> []" "\<not> is_ascii_space (last q)"
  shows "trim_string s = q"
proof -
  have "dropWhile is_ascii_space (rev q) = rev q"
    using assms by (intro dropWhile_hd) (simp_all add: hd_rev)
  then show ?thesis by (simp add: trim_string_def assms(1))
qed

lemma trim_string_Nil [simp]: "trim_string [] = []"
  by (simp add: trim_string_def)

subsection \<open>Lists and sums\<close>

lemma take_append_exact: "length a = n \<Longrightarrow> take n (a @ b) = a"
  by simp

lemma append_split_unique:
  "length a = length c \<Longrightarrow> a @ b = c @ d \<longleftrightarrow> a = c \<and> b = d"
  by auto

lemma split_at_first:
  assumes "c \<notin> set a" "c \<notin> set a'"
  shows "a @ c # b = a' @ c # b' \<longleftrightarrow> a = a' \<and> b = b'"
proof
  assume eq: "a @ c # b = a' @ c # b'"
  have "a = a'"
    using arg_cong [OF eq, of "takeWhile (\<lambda>x. x \<noteq> c)"] assms by simp
  then show "a = a' \<and> b = b'" using eq by simp
qed simp

lemma split_at_last:
  assumes "c \<notin> set b" "c \<notin> set b'"
  shows "a @ c # b = a' @ c # b' \<longleftrightarrow> a = a' \<and> b = b'"
proof -
  have "a @ c # b = a' @ c # b' \<longleftrightarrow> rev b @ c # rev a = rev b' @ c # rev a'"
    by (metis rev.simps(2) rev_append rev_rev_ident append.assoc append_Cons append_Nil)
  also have "\<dots> \<longleftrightarrow> a = a' \<and> b = b'"
    using assms by (simp add: split_at_first conj_commute)
  finally show ?thesis .
qed


subsection \<open>Simulations\<close>

text \<open>A concrete step relation that keeps an invariant and refines an abstract one: every concrete
  step from a related state is at most one abstract step to a related state.\<close>

locale forward_simulation =
  fixes cstep :: "'c \<Rightarrow> 'c \<Rightarrow> bool"
    and astep :: "'a \<Rightarrow> 'a \<Rightarrow> bool"
    and inv :: "'c \<Rightarrow> bool"
    and rel :: "'c \<Rightarrow> 'a \<Rightarrow> bool"
  assumes inv_step: "inv x \<Longrightarrow> cstep x y \<Longrightarrow> inv y"
    and sim_step: "inv x \<Longrightarrow> rel x a \<Longrightarrow> cstep x y \<Longrightarrow> \<exists>b. rel y b \<and> astep\<^sup>=\<^sup>= a b"
begin

lemma run_inv: "cstep\<^sup>*\<^sup>* x y \<Longrightarrow> inv x \<Longrightarrow> inv y"
  by (induction rule: rtranclp_induct) (auto intro: inv_step)

lemma run_simulated: "cstep\<^sup>*\<^sup>* x y \<Longrightarrow> inv x \<Longrightarrow> rel x a \<Longrightarrow> \<exists>b. rel y b \<and> astep\<^sup>*\<^sup>* a b"
proof (induction rule: rtranclp_induct)
  case (step y z)
  then obtain b where b: "rel y b" "astep\<^sup>*\<^sup>* a b" by blast
  have "inv y" using run_inv step.hyps(1) step.prems(1) by blast
  from sim_step [OF this b(1) step.hyps(2)] obtain d where "rel z d" "astep\<^sup>=\<^sup>= b d" by blast
  with b(2) show ?case by (auto intro: rtranclp.rtrancl_into_rtrancl)
qed blast

end

end
