(* ===== verification/Domain.thy ===== *)
theory Domain
  imports Prelude
begin

text \<open>
  \<open>internal/core/domain\<close>: the sentinel errors, the \<open>User\<close>, \<open>Session\<close> and \<open>Identity\<close>
  structs and \<open>User.IsActive\<close>.  A Go error is a value of \<open>go_error\<close>: a sentinel, an error
  made from text, an \<open>*strconv.NumError\<close>, or the wrapping \<open>fmt.Errorf\<close> builds around a
  \<open>%w\<close> operand, through which \<open>errors.Is\<close> looks.
\<close>

datatype sentinel =
    ErrUserNotFound
  | ErrUnauthorized
  | ErrNoToken
  | ErrInvalidToken
  | SqlErrNoRows

datatype num_error = NumSyntax | NumRange

datatype go_error =
    Sentinel sentinel
  | ErrorText string
  | NumError string num_error
  | Wrapped string go_error string

fun sentinel_text :: "sentinel \<Rightarrow> string" where
  "sentinel_text ErrUserNotFound = ''ghost staff user not found''"
| "sentinel_text ErrUnauthorized = ''user is not an active Ghost staff member''"
| "sentinel_text ErrNoToken = ''no OIDC identity token found in request cookies''"
| "sentinel_text ErrInvalidToken = ''invalid or malformed OIDC token''"
| "sentinel_text SqlErrNoRows = ''sql: no rows in result set''"

text \<open>\<open>errors.Is(err, target)\<close>, following the chain of wrapped errors.\<close>

fun errors_is :: "go_error \<Rightarrow> sentinel \<Rightarrow> bool" where
  "errors_is (Sentinel s) t = (s = t)"
| "errors_is (ErrorText m) t = False"
| "errors_is (NumError f k) t = False"
| "errors_is (Wrapped pre err post) t = errors_is err t"

record identity =
  i_Email :: string
  i_Sub :: string

record user =
  u_ID :: string
  u_Email :: string
  u_Status :: string

definition IsActive :: "user \<Rightarrow> bool" where
  "IsActive u \<longleftrightarrow> u_Status u = ''active''"

record session =
  s_SessionID :: string
  s_SignedCookieValue :: string
  s_UserID :: string
  s_CreatedAt :: int

end
