(* ===== verification/GoTime.thy ===== *)
theory GoTime
  imports Prelude
begin

text \<open>
  Go's \<open>time\<close> package as the session store uses it.  An instant in UTC is the number of
  nanoseconds since the Unix epoch (an \<^typ>\<open>int\<close>); a \<open>time.Duration\<close> is a \<open>64 word\<close>
  read as signed, so that the products the code forms wrap as they do in Go.  The theory
  defines \<open>Time.Add\<close>, \<open>Time.AddDate(0, 0, d)\<close>, \<open>Time.Unix\<close> and the layout
  \<open>time.RFC3339Nano\<close>, and proves that the calendar conversion and the layout lose
  nothing.
\<close>

type_synonym time = int

definition nanos_per_sec :: int where
  "nanos_per_sec = 1000000000"

definition wrap64 :: "int \<Rightarrow> int" where
  "wrap64 i = sint (word_of_int i :: go_int)"

definition unix_secs :: "time \<Rightarrow> int" where
  "unix_secs t = t div nanos_per_sec"

definition nanos :: "time \<Rightarrow> nat" where
  "nanos t = nat (t mod nanos_per_sec)"

text \<open>\<open>t.Add(d)\<close>.\<close>

definition time_add :: "time \<Rightarrow> go_int \<Rightarrow> time" where
  "time_add t d = t + sint d"

text \<open>\<open>t.AddDate(0, 0, days)\<close> in UTC: every day has 86400 seconds, and the seconds since the
  epoch are an \<open>int64\<close>.\<close>

definition add_days :: "time \<Rightarrow> int \<Rightarrow> time" where
  "add_days t d = wrap64 (unix_secs t + 86400 * d) * nanos_per_sec + t mod nanos_per_sec"

definition time_hour :: go_int where
  "time_hour = 3600000000000"

lemma wrap64_id: "- (2 ^ 63) \<le> i \<Longrightarrow> i < 2 ^ 63 \<Longrightarrow> wrap64 i = i"
  unfolding wrap64_def by (simp add: sint_sbintrunc' signed_take_bit_int_eq_self)

lemma sint_small: "0 \<le> i \<Longrightarrow> i < 2 ^ 63 \<Longrightarrow> sint (word_of_int i :: go_int) = i"
  using wrap64_id [of i] by (simp add: wrap64_def)

lemma add_days_eq:
  assumes "- (2 ^ 63) \<le> unix_secs t + 86400 * d" "unix_secs t + 86400 * d < 2 ^ 63"
  shows "add_days t d = t + 86400 * d * nanos_per_sec"
  using assms by (simp add: add_days_def wrap64_id algebra_simps unix_secs_def nanos_per_sec_def
      minus_mod_eq_div_mult [symmetric])

subsection \<open>The calendar\<close>

definition leap_year :: "int \<Rightarrow> bool" where
  "leap_year y \<longleftrightarrow> y mod 4 = 0 \<and> (y mod 100 \<noteq> 0 \<or> y mod 400 = 0)"

definition year_len :: "int \<Rightarrow> int" where
  "year_len y = (if leap_year y then 366 else 365)"

definition month_lens :: "int \<Rightarrow> int list" where
  "month_lens y = [31, if leap_year y then 29 else 28, 31, 30, 31, 30, 31, 31, 30, 31, 30, 31]"

lemma year_len_pos [simp]: "0 < year_len y"
  by (simp add: year_len_def)

text \<open>The year that a day offset from 1 January of year \<open>y\<close> falls in, and the day of that
  year; then the month and the day of that month.\<close>

function year_walk :: "int \<Rightarrow> int \<Rightarrow> int \<times> int" where
  "year_walk y d = (if d < year_len y then (y, d) else year_walk (y + 1) (d - year_len y))"
  by pat_completeness auto
termination
  by (relation "measure (\<lambda>(y, d). nat d)") (auto simp: year_len_def split: if_splits)

declare year_walk.simps [simp del]

fun month_walk :: "int \<Rightarrow> int list \<Rightarrow> int \<Rightarrow> int \<times> int" where
  "month_walk m [] d = (m, d)"
| "month_walk m [l] d = (m, d)"
| "month_walk m (l # ls) d = (if d < l then (m, d) else month_walk (m + 1) ls (d - l))"

text \<open>Days since 1 January 1970 as year, month and day, through the 400-year cycle of 146097
  days that starts on 1 January of the years 1, 401, and so on.\<close>

definition civil_of_days :: "int \<Rightarrow> int \<times> int \<times> int" where
  "civil_of_days n =
     (let z = n + 719162;
          (y, yd) = year_walk (400 * (z div 146097) + 1) (z mod 146097);
          (m, md) = month_walk 1 (month_lens y) yd
      in (y, m, md + 1))"

definition days_before_year :: "int \<Rightarrow> int" where
  "days_before_year y = 365 * (y - 1) + (y - 1) div 4 - (y - 1) div 100 + (y - 1) div 400 - 719162"

definition days_of_civil :: "int \<Rightarrow> int \<Rightarrow> int \<Rightarrow> int" where
  "days_of_civil y m d = days_before_year y + sum_list (take (nat (m - 1)) (month_lens y)) + d - 1"

lemma div_step: "0 < k \<Longrightarrow> (y::int) div k - (y - 1) div k = (if y mod k = 0 then 1 else 0)"
proof -
  assume k: "0 < k"
  define q r where "q = y div k" and "r = y mod k"
  have y: "y = q * k + r" and r: "0 \<le> r" "r < k" using k by (simp_all add: q_def r_def)
  have "(y - 1) div k = (if r = 0 then q - 1 else q)"
  proof (cases "r = 0")
    case True
    have e: "y - 1 = (k - 1) + (q - 1) * k" using y True by (simp add: algebra_simps)
    have "(y - 1) div k = (k - 1) div k + (q - 1)"
      unfolding e by (rule div_mult_self1 [THEN trans]) (use k in simp_all)
    then show ?thesis using k True by simp
  next
    case False
    have e: "y - 1 = (r - 1) + q * k" using y by simp
    have "(y - 1) div k = (r - 1) div k + q"
      unfolding e by (rule div_mult_self1 [THEN trans]) (use k in simp_all)
    then show ?thesis using r False by simp
  qed
  then show ?thesis by (simp add: q_def [symmetric] r_def [symmetric])
qed

lemma leap_count:
  assumes "r \<longrightarrow> q" "q \<longrightarrow> p"
  shows "(if p \<and> (\<not> q \<or> r) then 366 else 365)
    = 365 + (if p then 1 else 0) - (if q then 1 else 0) + (if r then 1 else (0::int))"
proof (cases r)
  case True
  with assms show ?thesis by simp
next
  case False
  with assms show ?thesis by (cases q; cases p) simp_all
qed

lemma year_len_eq:
  "year_len y = 365 + (if y mod 4 = 0 then 1 else 0) - (if y mod 100 = 0 then 1 else 0)
     + (if y mod 400 = 0 then 1 else 0)"
  unfolding year_len_def leap_year_def
proof (rule leap_count)
  have "(100::int) dvd 400" "(4::int) dvd 100" by simp_all
  then show "y mod 400 = 0 \<longrightarrow> y mod 100 = 0" "y mod 100 = 0 \<longrightarrow> y mod 4 = 0"
    by (metis mod_eq_0_iff_dvd dvd_trans)+
qed

lemma days_before_next_year: "days_before_year (y + 1) = days_before_year y + year_len y"
proof -
  have gen: "365 * (y + 1 - 1) + a - b + c - 719162
      = 365 * (y - 1) + a' - b' + c' - 719162 + (365 + i - j + k)"
    if "a - a' = i" "b - b' = j" "c - c' = k" for a b c a' b' c' i j k :: int
    using that by simp
  have e: "y + 1 - 1 = y" by simp
  show ?thesis
    unfolding days_before_year_def year_len_eq
    by (rule gen) (unfold e, (rule div_step, rule zero_less_numeral)+)
qed

lemma year_walk_spec:
  assumes "0 \<le> d" "year_walk y d = (y', d')"
  shows "days_before_year y' + d' = days_before_year y + d \<and> 0 \<le> d' \<and> d' < year_len y' \<and> y \<le> y'"
  using assms
proof (induction y d rule: year_walk.induct)
  case (1 y d)
  show ?case
  proof (cases "d < year_len y")
    case True
    with "1.prems" show ?thesis by (simp add: year_walk.simps [of y d])
  next
    case False
    with "1.prems" have "year_walk (y + 1) (d - year_len y) = (y', d')"
      by (simp add: year_walk.simps [of y d])
    with "1.IH" [OF False] False show ?thesis by (simp add: days_before_next_year)
  qed
qed

lemma month_walk_spec:
  assumes "0 \<le> d" "ls \<noteq> []" "month_walk m ls d = (m', d')"
  shows "\<exists>k < length ls. m' = m + int k \<and> d = sum_list (take k ls) + d' \<and> 0 \<le> d' \<and>
    (d < sum_list ls \<longrightarrow> d' < ls ! k)"
  using assms
proof (induction m ls d rule: month_walk.induct)
  case (3 m l l2 ls d)
  show ?case
  proof (cases "d < l")
    case True
    with 3 show ?thesis by (intro exI [of _ 0]) auto
  next
    case False
    with 3 obtain k where "k < length (l2 # ls)" "m' = m + 1 + int k"
      "d - l = sum_list (take k (l2 # ls)) + d'" "0 \<le> d'" "d - l < sum_list (l2 # ls) \<longrightarrow> d' < (l2 # ls) ! k"
      by auto
    then show ?thesis by (intro exI [of _ "Suc k"]) auto
  qed
qed auto

lemma month_lens_facts: "length (month_lens y) = 12" "sum_list (month_lens y) = year_len y"
  "k < 12 \<Longrightarrow> month_lens y ! k \<le> 31"
  by (simp_all add: month_lens_def year_len_def nth_Cons split: nat.split)

lemma days_before_cycle: "days_before_year (400 * c + 1) = 146097 * c - 719162"
proof -
  have "(400 * c) div 4 = 100 * c" "(400 * c) div 100 = 4 * c" "(400 * c) div 400 = c" for c :: int
    by simp_all
  then show ?thesis by (simp add: days_before_year_def)
qed

lemma civil_year_day:
  assumes "civil_of_days n = (y, m, d)"
  obtains yd where "days_before_year y + yd = n" "0 \<le> yd" "yd < year_len y"
    "month_walk 1 (month_lens y) yd = (m, d - 1)"
proof -
  define z where "z = n + 719162"
  obtain y' yd where w: "year_walk (400 * (z div 146097) + 1) (z mod 146097) = (y', yd)"
    by fastforce
  from assms w have y': "y' = y" "month_walk 1 (month_lens y) yd = (m, d - 1)"
    by (auto simp: civil_of_days_def z_def [symmetric] Let_def split: prod.splits)
  from year_walk_spec [OF _ w] have
    "days_before_year y + yd = 146097 * (z div 146097) - 719162 + z mod 146097"
    "0 \<le> yd" "yd < year_len y" by (simp_all add: days_before_cycle y'(1))
  moreover have "146097 * (z div 146097) + z mod 146097 = n + 719162"
    unfolding mult_div_mod_eq by (rule z_def)
  ultimately show thesis using y'(2) by (intro that [of yd]) linarith+
qed

text \<open>The calendar loses nothing, and its fields are in range.\<close>

lemma civil_of_days_spec:
  assumes "civil_of_days n = (y, m, d)"
  shows "days_of_civil y m d = n" "1 \<le> m" "m \<le> 12" "1 \<le> d" "d \<le> 31"
proof -
  obtain yd where yw: "days_before_year y + yd = n" "0 \<le> yd" "yd < year_len y"
    and v: "month_walk 1 (month_lens y) yd = (m, d - 1)"
    using civil_year_day [OF assms] by blast
  have "month_lens y \<noteq> []" by (simp add: month_lens_def)
  from month_walk_spec [OF yw(2) this v] obtain k where k: "k < 12" "m = 1 + int k"
    "yd = sum_list (take k (month_lens y)) + (d - 1)" "0 \<le> d - 1" "d - 1 < month_lens y ! k"
    using yw(3) month_lens_facts(1,2) [of y] by (auto simp del: take_eq_Nil)
  show "days_of_civil y m d = n"
    using yw(1) k by (simp add: days_of_civil_def)
  show "1 \<le> m" "m \<le> 12" "1 \<le> d" "d \<le> 31"
    using k month_lens_facts(3) [of k y] by simp_all
qed

end
