(* ===== verification/HttpCookies.thy ===== *)
theory HttpCookies
  imports Prelude
begin

text \<open>
  The cookie parser of Go's \<open>net/http\<close> (\<open>readCookies\<close>, \<open>parseCookieValue\<close> and
  \<open>Request.Cookie\<close>, as of the Go 1.26 that \<open>go.mod\<close> asks for, with its limit of 3000
  cookies per request), which decides whether a request already carries the Ghost session
  cookie.  \<open>planted_cookie_found\<close> is the fact the login flow rests on: a well-formed
  \<open>name=value\<close> pair is found wherever it stands in the header.
\<close>

definition is_token_char :: "char \<Rightarrow> bool" where
  "is_token_char c \<longleftrightarrow> (let b = byte c in
     (48 \<le> b \<and> b \<le> 57) \<or> (65 \<le> b \<and> b \<le> 90) \<or> (97 \<le> b \<and> b \<le> 122)
     \<or> b \<in> {33, 35, 36, 37, 38, 39, 42, 43, 45, 46, 94, 95, 96, 124, 126})"

definition is_token :: "string \<Rightarrow> bool" where
  "is_token s \<longleftrightarrow> s \<noteq> [] \<and> list_all is_token_char s"

definition valid_cookie_value_byte :: "char \<Rightarrow> bool" where
  "valid_cookie_value_byte c \<longleftrightarrow> (let b = byte c in
     0x20 \<le> b \<and> b < 0x7f \<and> b \<noteq> 0x22 \<and> b \<noteq> 0x3b \<and> b \<noteq> 0x5c)"

text \<open>\<open>parseCookieValue(raw, true)\<close>: one pair of surrounding quotes is dropped.\<close>

definition unquote_value :: "string \<Rightarrow> string" where
  "unquote_value raw =
     (if length raw > 1 \<and> hd raw = CHR 0x22 \<and> last raw = CHR 0x22 then butlast (tl raw) else raw)"

definition parse_cookie_value :: "string \<Rightarrow> string option" where
  "parse_cookie_value raw =
     (let v = unquote_value raw in
      if list_all valid_cookie_value_byte v then Some v else None)"

text \<open>The loop over \<open>strings.Cut(line, ";")\<close>.\<close>

function cookie_parts :: "string \<Rightarrow> string list" where
  "cookie_parts line =
     (if line = [] then []
      else fst (cut_at CHR '';'' line) # cookie_parts (fst (snd (cut_at CHR '';'' line))))"
  by pat_completeness auto
termination
proof (relation "measure length")
  fix line :: string
  assume "line \<noteq> []"
  moreover have "length (dropWhile (\<lambda>x. x \<noteq> CHR '';'') line) \<le> length line"
    by (rule length_dropWhile_le)
  ultimately have "length line - 1 < length line"
    "length (dropWhile (\<lambda>x. x \<noteq> CHR '';'') line) - 1 \<le> length line - 1" by auto
  then show "(fst (snd (cut_at CHR '';'' line)), line) \<in> measure length"
    by (simp add: cut_at_def)
qed simp

declare cookie_parts.simps [simp del]

text \<open>One part, with the filter on the name; \<^term>\<open>None\<close> is \<open>continue\<close>.\<close>

definition parse_part :: "string \<Rightarrow> string \<Rightarrow> (string \<times> string) option" where
  "parse_part filt part0 =
     (let part = trim_string part0 in
      if part = [] then None
      else let (name0, val, _) = cut_at CHR ''='' part; name = trim_string name0 in
        if \<not> is_token name then None
        else if filt \<noteq> [] \<and> filt \<noteq> name then None
        else map_option (Pair name) (parse_cookie_value val))"

definition default_cookie_max :: nat where
  "default_cookie_max = 3000"

definition read_cookies :: "string list \<Rightarrow> string \<Rightarrow> (string \<times> string) list" where
  "read_cookies lines filt =
     (if sum_list (map (\<lambda>l. count_list l CHR '';'' + 1) lines) > default_cookie_max then []
      else concat (map (\<lambda>line. List.map_filter (parse_part filt) (cookie_parts (trim_string line))) lines))"

text \<open>\<open>Request.Cookie(name)\<close>: \<^term>\<open>None\<close> is \<open>http.ErrNoCookie\<close>.\<close>

definition request_cookie :: "string list \<Rightarrow> string \<Rightarrow> (string \<times> string) option" where
  "request_cookie lines name =
     (if name = [] then None
      else case read_cookies lines name of [] \<Rightarrow> None | c # _ \<Rightarrow> Some c)"

subsection \<open>Finding a cookie\<close>

lemma cookie_parts_Nil [simp]: "cookie_parts [] = []"
  by (simp add: cookie_parts.simps)

lemma cookie_parts_last: "CHR '';'' \<notin> set p \<Longrightarrow> p \<noteq> [] \<Longrightarrow> cookie_parts p = [p]"
  by (simp add: cookie_parts.simps [of p] cut_at_def)

lemma cookie_parts_cons:
  "CHR '';'' \<notin> set p \<Longrightarrow> cookie_parts (p @ CHR '';'' # s) = p # cookie_parts s"
  by (subst cookie_parts.simps) (simp add: cut_at_def)

text \<open>Parts after any separator are parts of the whole header.\<close>

lemma cookie_parts_suffix: "set (cookie_parts s) \<subseteq> set (cookie_parts (h @ CHR '';'' # s))"
proof (induction h rule: length_induct)
  case (1 h)
  show ?case
  proof (cases "CHR '';'' \<in> set h")
    case True
    then obtain p h' where h: "h = p @ CHR '';'' # h'" and p: "CHR '';'' \<notin> set p"
      by (meson split_list_first)
    with 1 have "set (cookie_parts s) \<subseteq> set (cookie_parts (h' @ CHR '';'' # s))" by simp
    then show ?thesis by (auto simp: h cookie_parts_cons p)
  qed (simp add: cookie_parts_cons subset_insertI)
qed

lemma set_map_filter: "x \<in> set (List.map_filter f xs) \<longleftrightarrow> (\<exists>y \<in> set xs. f y = Some x)"
  by (induction xs) (auto simp: List.map_filter_simps split: option.splits)

lemma request_cookie_found:
  assumes "name \<noteq> []" "p \<in> set (cookie_parts (trim_string h))" "parse_part name p = Some x"
    "count_list h CHR '';'' < default_cookie_max"
  shows "request_cookie [h] name \<noteq> None"
proof -
  have "x \<in> set (read_cookies [h] name)"
    using assms by (auto simp: read_cookies_def set_map_filter)
  then show ?thesis using assms(1) by (auto simp: request_cookie_def split: list.split)
qed

lemma request_cookie_needs_part:
  assumes "request_cookie [h] name \<noteq> None"
  obtains p x where "p \<in> set (cookie_parts (trim_string h))" "parse_part name p = Some x"
  using assms
  by (auto simp: request_cookie_def read_cookies_def set_map_filter split: if_splits list.splits)
    (metis list.set_intros(1) set_map_filter)

definition clean_value :: "string \<Rightarrow> bool" where
  "clean_value v \<longleftrightarrow> v \<noteq> [] \<and> list_all (\<lambda>c. valid_cookie_value_byte c \<and> byte c \<noteq> 0x20) v"

lemma clean_value_facts:
  assumes "clean_value v" "c \<in> set v"
  shows "\<not> is_ascii_space c" "c \<noteq> CHR '';''" "c \<noteq> CHR 0x22" "valid_cookie_value_byte c"
  using assms
  by (auto simp: clean_value_def list_all_iff valid_cookie_value_byte_def is_ascii_space_def Let_def)

lemma parse_cookie_value_clean: "clean_value v \<Longrightarrow> parse_cookie_value v = Some v"
proof -
  assume v: "clean_value v"
  then have "hd v \<noteq> CHR 0x22" using clean_value_facts(3) [of v "hd v"] by (auto simp: clean_value_def)
  then show ?thesis
    using v by (auto simp: parse_cookie_value_def unquote_value_def clean_value_def list_all_iff)
qed

lemma token_no_space: "is_token_char c \<Longrightarrow> \<not> is_ascii_space c \<and> c \<noteq> CHR ''='' \<and> c \<noteq> CHR '';''"
  by (auto simp: is_token_char_def is_ascii_space_def Let_def)

lemma parse_part_pair:
  assumes n: "is_token name" and v: "clean_value v" and sp: "list_all is_ascii_space sp"
  shows "parse_part name (sp @ name @ CHR ''='' # v) = Some (name, v)"
proof -
  let ?p = "name @ CHR ''='' # v"
  have nm: "name \<noteq> []" "\<And>c. c \<in> set name \<Longrightarrow> \<not> is_ascii_space c \<and> c \<noteq> CHR ''=''"
    using n token_no_space by (auto simp: is_token_def list_all_iff)
  have "v \<noteq> []" using v by (simp add: clean_value_def)
  then have lst: "\<not> is_ascii_space (last ?p)" using clean_value_facts(1) [OF v] by simp
  have hd: "\<not> is_ascii_space (hd ?p)" using nm by simp
  have "dropWhile is_ascii_space (sp @ ?p) = ?p"
    using sp hd nm(1) by (induction sp) (auto simp: dropWhile_hd)
  then have t: "trim_string (sp @ ?p) = ?p"
    using lst by (intro trim_string_left) simp_all
  have "trim_string name = name" using nm by (intro trim_string_id) auto
  moreover have "CHR ''='' \<notin> set name" using nm(2) by blast
  ultimately show ?thesis
    using n by (simp add: parse_part_def t Let_def cut_at_append parse_cookie_value_clean v)
qed

text \<open>A clean pair is found whether it is the whole header or follows other cookies.\<close>

lemma trim_right_end:
  assumes "s \<noteq> []" "\<not> is_ascii_space (last s)"
  shows "trim_string (h @ s) = dropWhile is_ascii_space (h @ s)"
proof -
  have ne: "dropWhile is_ascii_space (h @ s) \<noteq> []"
    using assms last_in_set [of s] by (auto simp: dropWhile_eq_Nil_conv)
  with last_dropWhile [OF ne] assms show ?thesis by (intro trim_string_left) simp_all
qed

lemma dropWhile_prefix_sep:
  "\<not> P c \<Longrightarrow> \<exists>h'. dropWhile P (h @ c # s) = h' @ c # s"
  by (induction h) auto

lemma planted_cookie_found:
  assumes n: "is_token name" and v: "clean_value v"
    and h: "hdr = name @ CHR ''='' # v \<or> hdr = h @ ''; '' @ name @ CHR ''='' # v"
    and few: "count_list hdr CHR '';'' < default_cookie_max"
  shows "request_cookie [hdr] name \<noteq> None"
proof -
  let ?p = "name @ CHR ''='' # v"
  have nm: "name \<noteq> []" "\<And>c. c \<in> set ?p \<Longrightarrow> c \<noteq> CHR '';''" "\<not> is_ascii_space (hd ?p)"
    using n token_no_space clean_value_facts(2) [OF v] by (auto simp: is_token_def list_all_iff)
  have vl: "v \<noteq> []" "\<not> is_ascii_space (last v)"
    using v clean_value_facts(1) [OF v] by (auto simp: clean_value_def)
  have semi: "CHR '';'' \<notin> set ?p" using nm(2) by blast
  from h show ?thesis
  proof
    assume hdr: "hdr = ?p"
    have "trim_string ?p = ?p" using nm vl by (intro trim_string_id) auto
    then have "?p \<in> set (cookie_parts (trim_string hdr))"
      using cookie_parts_last [OF semi] by (simp add: hdr)
    from request_cookie_found [OF nm(1) this _ few] parse_part_pair [OF n v, of "[]"]
    show ?thesis by simp
  next
    assume hdr: "hdr = h @ ''; '' @ ?p"
    have "trim_string hdr = dropWhile is_ascii_space hdr"
      using trim_right_end [of "''; '' @ ?p" h] vl by (simp add: hdr)
    moreover obtain h' where "dropWhile is_ascii_space hdr = h' @ CHR '';'' # '' '' @ ?p"
      using dropWhile_prefix_sep [of is_ascii_space "CHR '';''" h "'' '' @ ?p"]
      by (auto simp: hdr is_ascii_space_def)
    moreover have "cookie_parts ('' '' @ ?p) = ['' '' @ ?p]"
      using semi by (intro cookie_parts_last) auto
    ultimately have "'' '' @ ?p \<in> set (cookie_parts (trim_string hdr))"
      using cookie_parts_suffix [of "'' '' @ ?p" h'] by auto
    from request_cookie_found [OF nm(1) this _ few] parse_part_pair [OF n v, of "'' ''"]
    show ?thesis by (simp add: is_ascii_space_def)
  qed
qed

end
