(* ===== verification/World.thy ===== *)
theory World
  imports Domain GoTime HttpCookies
begin

text \<open>
  What the program runs in.  \<open>environment\<close> gathers what the code reads from outside and
  cannot control, each as an argument of the model: the clock, the random bytes, whether a
  SQL statement fails (and whether it had taken effect before the failure), the order in
  which the database returns rows of equal rank, its text collation and the precision of its
  time columns, the answers of the Authentik endpoint and the verdict of \<open>net/url\<close> on the
  endpoint's URL.  \<open>world\<close> is what changes: the three Ghost tables the code touches,
  counters that say how often each source was read, the HTTP requests sent and the log.
  Every operation takes the world and returns it.
\<close>

subsection \<open>Tables\<close>

record user_row =
  ur_id :: string
  ur_email :: string
  ur_status :: string

record session_row =
  sr_id :: string
  sr_session_id :: string
  sr_user_id :: string
  sr_session_data :: string
  sr_created_at :: time
  sr_updated_at :: time

text \<open>A setting's value may be SQL \<open>NULL\<close>.\<close>

record setting_row =
  st_key :: string
  st_value :: "string option"

record database =
  users :: "user_row list"
  sessions :: "session_row list"
  settings :: "setting_row list"

subsection \<open>HTTP messages\<close>

type_synonym header = "string \<Rightarrow> string list option"

record http_request =
  rq_method :: string
  rq_url :: string
  rq_header :: header

record http_response =
  rs_status :: int
  rs_header :: header

text \<open>\<open>textproto.CanonicalMIMEHeaderKey\<close>, \<open>Header.Set\<close> and \<open>Header.Get\<close>.\<close>

fun canonical_walk :: "bool \<Rightarrow> string \<Rightarrow> string" where
  "canonical_walk up [] = []"
| "canonical_walk up (c # cs) =
     (if up \<and> 97 \<le> byte c \<and> byte c \<le> 122 then chr (byte c - 32)
      else if \<not> up \<and> 65 \<le> byte c \<and> byte c \<le> 90 then chr (byte c + 32)
      else c) # canonical_walk (c = CHR ''-'') cs"

definition canonical_key :: "string \<Rightarrow> string" where
  "canonical_key k = (if list_all is_token_char k then canonical_walk True k else k)"

definition header_set :: "header \<Rightarrow> string \<Rightarrow> string \<Rightarrow> header" where
  "header_set h k v = h(canonical_key k := Some [v])"

definition header_get :: "header \<Rightarrow> string \<Rightarrow> string" where
  "header_get h k = (case h (canonical_key k) of Some (v # _) \<Rightarrow> v | _ \<Rightarrow> [])"

lemma canonical_keys [simp]:
  "canonical_key ''Cookie'' = ''Cookie''"
  "canonical_key ''X-Forwarded-Host'' = ''X-Forwarded-Host''"
  "canonical_key ''X-Forwarded-Proto'' = ''X-Forwarded-Proto''"
  "canonical_key ''X-Forwarded-Uri'' = ''X-Forwarded-Uri''"
  "canonical_key ''X-Authentik-Email'' = ''X-Authentik-Email''"
  "canonical_key ''Location'' = ''Location''"
  by (simp_all add: canonical_key_def is_token_char_def Let_def)

subsection \<open>Logging\<close>

datatype log_level = LevelDebug | LevelInfo | LevelWarn | LevelError

fun level_num :: "log_level \<Rightarrow> int" where
  "level_num LevelDebug = -4"
| "level_num LevelInfo = 0"
| "level_num LevelWarn = 4"
| "level_num LevelError = 8"

text \<open>Levels are ordered by their number.\<close>

instantiation log_level :: linorder
begin

definition less_eq_log_level :: "log_level \<Rightarrow> log_level \<Rightarrow> bool" where
  "less_eq_log_level a b \<longleftrightarrow> level_num a \<le> level_num b"

definition less_log_level :: "log_level \<Rightarrow> log_level \<Rightarrow> bool" where
  "less_log_level a b \<longleftrightarrow> level_num a < level_num b"

instance
proof
  fix a b c :: log_level
  show "a < b \<longleftrightarrow> a \<le> b \<and> \<not> b \<le> a" "a \<le> a" "a \<le> b \<or> b \<le> a"
    by (auto simp: less_eq_log_level_def less_log_level_def)
  show "a \<le> b \<Longrightarrow> b \<le> c \<Longrightarrow> a \<le> c" by (simp add: less_eq_log_level_def)
  show "a \<le> b \<Longrightarrow> b \<le> a \<Longrightarrow> a = b" by (cases a; cases b) (simp_all add: less_eq_log_level_def)
qed

end

lemma level_order [simp]:
  "LevelDebug \<le> l" "l \<le> LevelError" "\<not> LevelInfo \<le> LevelDebug" "LevelInfo \<le> LevelWarn"
  by (cases l; simp add: less_eq_log_level_def)+

lemma above_debug [simp]: "LevelInfo \<le> l \<Longrightarrow> \<not> l \<le> LevelDebug"
  by (cases l) (simp_all add: less_eq_log_level_def)

datatype attr_value = AString string | AInt int | ABool bool | AError go_error

record log_entry =
  lg_level :: log_level
  lg_msg :: string
  lg_attrs :: "(string \<times> attr_value) list"

text \<open>A logger is its handler's minimum level.\<close>

type_synonym logger = log_level

subsection \<open>Environment and world\<close>

record environment =
  clock :: "nat \<Rightarrow> time"
  entropy :: "nat \<Rightarrow> (nat \<Rightarrow> char) option"
  sql_fault :: "nat \<Rightarrow> (string \<times> bool) option"
  tie :: "nat \<Rightarrow> nat"
  text_eq :: "string \<Rightarrow> string \<Rightarrow> bool"
  col_time :: "time \<Rightarrow> time"
  arg_time :: "time \<Rightarrow> time"
  round_trip :: "nat \<Rightarrow> http_request \<Rightarrow> string + http_response"
  url_error :: "string \<Rightarrow> string option"

record world =
  db :: database
  now_calls :: nat
  rand_calls :: nat
  sql_calls :: nat
  http_sent :: "http_request list"
  logs :: "log_entry list"

definition log_at :: "logger \<Rightarrow> log_level \<Rightarrow> string \<Rightarrow> (string \<times> attr_value) list \<Rightarrow> world \<Rightarrow> world" where
  "log_at lg lv msg attrs w =
     (if lg \<le> lv
      then w\<lparr>logs := logs w @ [\<lparr>lg_level = lv, lg_msg = msg, lg_attrs = attrs\<rparr>]\<rparr> else w)"

text \<open>\<open>time.Now().UTC()\<close>.\<close>

definition time_now :: "environment \<Rightarrow> world \<Rightarrow> time \<times> world" where
  "time_now e w = (clock e (now_calls w), w\<lparr>now_calls := Suc (now_calls w)\<rparr>)"

text \<open>\<open>rand.Read(b)\<close> on a slice of \<open>n\<close> bytes.\<close>

definition rand_read :: "environment \<Rightarrow> nat \<Rightarrow> world \<Rightarrow> (go_error + string) \<times> world" where
  "rand_read e n w =
     ((case entropy e (rand_calls w) of
         None \<Rightarrow> Inl (ErrorText ''crypto/rand: read failed'')
       | Some f \<Rightarrow> Inr (map f [0..<n])),
      w\<lparr>rand_calls := Suc (rand_calls w)\<rparr>)"

text \<open>One statement sent to the server.  A fault is the error the driver returns instead of
  the result; its flag says whether the statement had been carried out.\<close>

definition run_sql ::
    "environment \<Rightarrow> (nat \<Rightarrow> database \<Rightarrow> (go_error + 'a) \<times> database) \<Rightarrow> world \<Rightarrow> (go_error + 'a) \<times> world" where
  "run_sql e stmt w =
     (let k = sql_calls w; w' = w\<lparr>sql_calls := Suc k\<rparr>; (r, d) = stmt (tie e k) (db w) in
      case sql_fault e k of
        None \<Rightarrow> (r, w'\<lparr>db := d\<rparr>)
      | Some (msg, applied) \<Rightarrow> (Inl (ErrorText msg), if applied then w'\<lparr>db := d\<rparr> else w'))"

text \<open>\<open>LIMIT 1\<close>: one of the rows of best rank, whichever the server returns first; no row
  is \<open>sql.ErrNoRows\<close> from \<open>Scan\<close>.\<close>

definition limit_one :: "nat \<Rightarrow> 'a list \<Rightarrow> go_error + 'a" where
  "limit_one t rows = (if rows = [] then Inl (Sentinel SqlErrNoRows) else Inr (rows ! (t mod length rows)))"

lemma limit_one_cases:
  obtains "rows = []" "limit_one t rows = Inl (Sentinel SqlErrNoRows)"
  | row where "row \<in> set rows" "limit_one t rows = Inr row"
proof (cases "rows = []")
  case False
  then have "t mod length rows < length rows" by simp
  then have "rows ! (t mod length rows) \<in> set rows" by (rule nth_mem)
  with False show thesis by (intro that(2) [of "rows ! (t mod length rows)"]) (simp_all add: limit_one_def)
qed (use that(1) in \<open>simp add: limit_one_def\<close>)

lemma limit_one_in: "limit_one t rows = Inr row \<Longrightarrow> row \<in> set rows"
  by (cases rule: limit_one_cases [of rows t]) auto

subsection \<open>Frame facts\<close>

lemma log_at_frame [simp, frame_simps]:
  "db (log_at lg lv m a w) = db w" "now_calls (log_at lg lv m a w) = now_calls w"
  "rand_calls (log_at lg lv m a w) = rand_calls w" "sql_calls (log_at lg lv m a w) = sql_calls w"
  "http_sent (log_at lg lv m a w) = http_sent w"
  by (simp_all add: log_at_def)

lemma time_now_frame [simp, frame_simps]:
  "db (snd (time_now e w)) = db w" "rand_calls (snd (time_now e w)) = rand_calls w"
  "sql_calls (snd (time_now e w)) = sql_calls w" "http_sent (snd (time_now e w)) = http_sent w"
  "logs (snd (time_now e w)) = logs w" "now_calls (snd (time_now e w)) = Suc (now_calls w)"
  "fst (time_now e w) = clock e (now_calls w)"
  by (simp_all add: time_now_def)

lemma rand_read_frame [simp, frame_simps]:
  "db (snd (rand_read e n w)) = db w" "now_calls (snd (rand_read e n w)) = now_calls w"
  "sql_calls (snd (rand_read e n w)) = sql_calls w" "http_sent (snd (rand_read e n w)) = http_sent w"
  "logs (snd (rand_read e n w)) = logs w" "rand_calls (snd (rand_read e n w)) = Suc (rand_calls w)"
  by (simp_all add: rand_read_def)

lemma run_sql_frame [simp, frame_simps]:
  "now_calls (snd (run_sql e s w)) = now_calls w" "rand_calls (snd (run_sql e s w)) = rand_calls w"
  "http_sent (snd (run_sql e s w)) = http_sent w" "logs (snd (run_sql e s w)) = logs w"
  "sql_calls (snd (run_sql e s w)) = Suc (sql_calls w)"
  by (auto simp: run_sql_def Let_def split: prod.split option.split)

lemma rand_read_length: "fst (rand_read e n w) = Inr b \<Longrightarrow> length b = n"
  by (auto simp: rand_read_def split: option.splits)

lemma run_sql_ok:
  "sql_fault e (sql_calls w) = None \<Longrightarrow>
   run_sql e s w = (fst (s (tie e (sql_calls w)) (db w)),
     w\<lparr>sql_calls := Suc (sql_calls w), db := snd (s (tie e (sql_calls w)) (db w))\<rparr>)"
  by (simp add: run_sql_def Let_def split: prod.split)

text \<open>A statement that does not write leaves the tables alone, failing or not.\<close>

lemma run_sql_read_only:
  "snd (s (tie e (sql_calls w)) (db w)) = db w \<Longrightarrow> db (snd (run_sql e s w)) = db w"
  by (auto simp: run_sql_def Let_def split: prod.split option.split)

lemma run_sql_db:
  "db (snd (run_sql e s w)) = db w \<or> db (snd (run_sql e s w)) = snd (s (tie e (sql_calls w)) (db w))"
  by (auto simp: run_sql_def Let_def split: prod.split option.split)

lemma run_sql_result:
  assumes "fst (run_sql e s w) = Inr x"
  shows "sql_fault e (sql_calls w) = None" "fst (s (tie e (sql_calls w)) (db w)) = Inr x"
    "db (snd (run_sql e s w)) = snd (s (tie e (sql_calls w)) (db w))"
  using assms by (auto simp: run_sql_def Let_def split: prod.splits option.splits)

lemma run_sql_error:
  "fst (run_sql e s w) = Inl x \<Longrightarrow>
   (\<exists>m. x = ErrorText m \<and> sql_fault e (sql_calls w) \<noteq> None)
   \<or> (sql_fault e (sql_calls w) = None \<and> fst (s (tie e (sql_calls w)) (db w)) = Inl x)"
  by (auto simp: run_sql_def Let_def split: prod.splits option.splits)

end
