(* ===== verification/Ports.thy ===== *)
theory Ports
  imports World
begin

text \<open>
  \<open>internal/core/ports\<close>: the interfaces between the core and its adapters.  A Go interface
  value is a record of functions on the world.  For each interface the theory states, as a
  locale, the contract its client relies on; the adapters' theories interpret the locales on
  their own operations.
\<close>

subsection \<open>Interface values\<close>

record user_repository =
  FindByEmail :: "string \<Rightarrow> world \<Rightarrow> (go_error + user) \<times> world"

record session_store =
  FindByUserID :: "string \<Rightarrow> world \<Rightarrow> (go_error + session option) \<times> world"
  Create :: "string \<Rightarrow> world \<Rightarrow> (go_error + session) \<times> world"

text \<open>The result of a forward auth check is an error or the triple of email, redirect URL
  and cookies.\<close>

record forward_auth_checker =
  CheckAuth :: "string \<Rightarrow> string \<Rightarrow> string \<Rightarrow> string \<Rightarrow> world
    \<Rightarrow> (go_error + string \<times> string \<times> string list) \<times> world"

record auth_service =
  EnsureSessionOp :: "string \<Rightarrow> string \<Rightarrow> world \<Rightarrow> (go_error + string) \<times> world"

subsection \<open>Contracts\<close>

text \<open>The user repository reads; its own failures are never the sentinel the core uses for
  refused users.\<close>

locale user_port =
  fixes repo :: user_repository
  assumes find_reads: "db (snd (FindByEmail repo em w)) = db w"
    and find_logs: "logs (snd (FindByEmail repo em w)) = logs w"
    and find_http: "http_sent (snd (FindByEmail repo em w)) = http_sent w"
    and find_error: "fst (FindByEmail repo em w) = Inl err \<Longrightarrow> \<not> errors_is err ErrUnauthorized"

text \<open>The session store: a session it returns has a non-empty signed cookie value (the empty
  string is the core's answer for nothing to do), its errors are not the refusal sentinel,
  it keeps every row that was there, and a lookup that finds nothing writes nothing.\<close>

locale session_port =
  fixes store :: session_store
  assumes find_signed: "fst (FindByUserID store u w) = Inr (Some s) \<Longrightarrow> s_SignedCookieValue s \<noteq> []"
    and create_signed: "fst (Create store u w) = Inr s \<Longrightarrow> s_SignedCookieValue s \<noteq> []"
    and find_none_reads: "fst (FindByUserID store u w) = Inr None \<Longrightarrow> db (snd (FindByUserID store u w)) = db w"
    and find_keeps_ids: "map sr_session_id (sessions (db (snd (FindByUserID store u w))))
      = map sr_session_id (sessions (db w))"
    and create_adds: "fst (Create store u w) = Inr s \<Longrightarrow>
      map sr_session_id (sessions (db (snd (Create store u w))))
        = map sr_session_id (sessions (db w)) @ [s_SessionID s]"
    and find_store_error: "fst (FindByUserID store u w) = Inl err \<Longrightarrow> \<not> errors_is err ErrUnauthorized"
    and create_error: "fst (Create store u w) = Inl err \<Longrightarrow> \<not> errors_is err ErrUnauthorized"
    and store_logs: "logs (snd (FindByUserID store u w)) = logs w" "logs (snd (Create store u w)) = logs w"

text \<open>The forward auth checker: a check without error has either an email or a redirect,
  never both and never neither, and cookies only with a redirect.\<close>

locale forward_auth_port =
  fixes checker :: forward_auth_checker
  assumes check_exclusive: "fst (CheckAuth checker ck h p u w) = Inr (em, loc, cks) \<Longrightarrow>
      (em \<noteq> [] \<and> loc = [] \<and> cks = []) \<or> (em = [] \<and> loc \<noteq> [])"
    and check_db: "db (snd (CheckAuth checker ck h p u w)) = db w"
    and check_logs: "logs (snd (CheckAuth checker ck h p u w)) = logs w"

end
