(* ===== verification/Samples.thy ===== *)
theory Samples
  imports World
begin

text \<open>
  One concrete environment and one concrete database, at which the witnesses of the other
  theories evaluate the model: a clock that advances a millisecond per reading, an entropy
  source and a server that never fail, exact text comparison, time columns that keep whole
  seconds, and an Authentik endpoint that knows the browser as Alice.
\<close>

definition start_time :: time where
  "start_time = 1765000000000000000"

definition authentik_ok :: http_response where
  "authentik_ok = \<lparr>rs_status = 200, rs_header = [''X-Authentik-Email'' \<mapsto> [''alice@example.com'']]\<rparr>"

definition authentik_login :: http_response where
  "authentik_login = \<lparr>rs_status = 302, rs_header =
     [''Location'' \<mapsto> [''https://auth.example.com/login''], ''Set-Cookie'' \<mapsto> [''authentik_proxy_a=1'', ''authentik_proxy_b=2'']]\<rparr>"

definition sample_env :: environment where
  "sample_env = \<lparr>clock = (\<lambda>n. start_time + int n * 1000000),
     entropy = (\<lambda>n. Some (\<lambda>i. chr ((7 * n + i) mod 256))),
     sql_fault = (\<lambda>n. None), tie = (\<lambda>n. 0), text_eq = (=),
     col_time = (\<lambda>t. t div nanos_per_sec * nanos_per_sec), arg_time = (\<lambda>t. t),
     round_trip = (\<lambda>n rq. Inr authentik_ok), url_error = (\<lambda>u. None)\<rparr>"

definition alice :: user_row where
  "alice = \<lparr>ur_id = ''1'', ur_email = ''alice@example.com'', ur_status = ''active''\<rparr>"

definition bob :: user_row where
  "bob = \<lparr>ur_id = ''2'', ur_email = ''bob@example.com'', ur_status = ''locked''\<rparr>"

definition alice_session :: session_row where
  "alice_session = \<lparr>sr_id = ''a'', sr_session_id = ''old'', sr_user_id = ''1'', sr_session_data = [],
     sr_created_at = start_time - 1000 * nanos_per_sec, sr_updated_at = start_time - 1000 * nanos_per_sec\<rparr>"

definition sample_db :: database where
  "sample_db = \<lparr>users = [alice, bob], sessions = [],
     settings = [\<lparr>st_key = ''admin_session_secret'', st_value = Some ''k3y''\<rparr>]\<rparr>"

definition world_of :: "database \<Rightarrow> world" where
  "world_of d = \<lparr>db = d, now_calls = 0, rand_calls = 0, sql_calls = 0, http_sent = [], logs = []\<rparr>"

definition sample_world :: world where
  "sample_world = world_of sample_db"

text \<open>The same tables once Alice has a session.\<close>

definition session_world :: world where
  "session_world = world_of (sample_db\<lparr>sessions := [alice_session]\<rparr>)"

lemmas sample_defs = start_time_def authentik_ok_def authentik_login_def sample_env_def alice_def bob_def
  alice_session_def sample_db_def world_of_def sample_world_def session_world_def

declare sample_defs [eval_defs]

end
