(* ===== verification/Rfc3339.thy ===== *)
theory Rfc3339
  imports GoTime
begin

text \<open>
  The layout \<open>time.RFC3339Nano\<close> in UTC, which the session store writes into
  \<open>cookie.expires\<close>, and a reader for it.  \<open>read_format\<close> is the round trip: for instants of
  the years 1970 to 9999 the text determines the instant to the nanosecond.
\<close>

text \<open>The package's \<open>appendInt\<close>: decimal, padded with zeros on the left.\<close>

definition pad_dec :: "nat \<Rightarrow> nat \<Rightarrow> string" where
  "pad_dec w n = replicate (w - length (nat_dec n)) CHR ''0'' @ nat_dec n"

definition append_int :: "nat \<Rightarrow> int \<Rightarrow> string" where
  "append_int w i = (if i < 0 then CHR ''-'' # pad_dec w (nat (- i)) else pad_dec w (nat i))"

text \<open>The fraction \<open>.999999999\<close>: nothing for a whole second, otherwise nine digits without
  their trailing zeros.\<close>

definition frac_text :: "nat \<Rightarrow> string" where
  "frac_text n = (if n = 0 then [] else CHR ''.'' # trim_right CHR ''0'' (pad_dec 9 n))"

definition format_rfc3339_nano :: "time \<Rightarrow> string" where
  "format_rfc3339_nano t =
     (let secs = unix_secs t;
          sod = nat (secs mod 86400);
          (y, m, d) = civil_of_days (secs div 86400)
      in append_int 4 y @ ''-'' @ append_int 2 m @ ''-'' @ append_int 2 d @ ''T''
         @ pad_dec 2 (sod div 3600) @ '':'' @ pad_dec 2 (sod div 60 mod 60) @ '':''
         @ pad_dec 2 (sod mod 60) @ frac_text (nanos t) @ ''Z'')"

definition read_frac :: "string \<Rightarrow> nat" where
  "read_frac s = (case s of
       [] \<Rightarrow> 0
     | c # r \<Rightarrow> if c = CHR ''.'' then
         (let f = takeWhile is_digit r in dec_val (f @ replicate (9 - length f) CHR ''0'')) else 0)"

definition read_rfc3339 :: "string \<Rightarrow> time" where
  "read_rfc3339 s =
     (let num = (\<lambda>i n. int (dec_val (take n (drop i s))));
          days = days_of_civil (num 0 4) (num 5 2) (num 8 2)
      in (days * 86400 + num 11 2 * 3600 + num 14 2 * 60 + num 17 2) * nanos_per_sec
         + int (read_frac (drop 19 s)))"

lemma foldl_dec_zeros: "foldl (\<lambda>a c. 10 * a + digit_val c) 0 (replicate k CHR ''0'') = 0"
  by (induction k) (simp_all add: digit_val_def)

lemma dec_val_pad [simp]: "dec_val (pad_dec w n) = n"
  using dec_val_nat_dec [of n] by (simp add: pad_dec_def dec_val_def foldl_dec_zeros)

lemma length_nat_dec: "0 < k \<Longrightarrow> n < 10 ^ k \<Longrightarrow> length (nat_dec n) \<le> k"
proof (induction k arbitrary: n)
  case (Suc k)
  show ?case
  proof (cases "n < 10")
    case True
    then show ?thesis by (subst nat_dec.simps) simp
  next
    case False
    with Suc.prems have "0 < k" by (cases k) auto
    moreover have "n div 10 < 10 ^ k" using Suc.prems by (simp add: less_mult_imp_div_less)
    ultimately have "length (nat_dec (n div 10)) \<le> k" by (rule Suc.IH)
    with False show ?thesis by (subst nat_dec.simps) simp
  qed
qed simp

lemma length_pad_dec: "0 < w \<Longrightarrow> n < 10 ^ w \<Longrightarrow> length (pad_dec w n) = w"
  using length_nat_dec [of w n] by (simp add: pad_dec_def)

lemma pad_dec_digits: "c \<in> set (pad_dec w n) \<Longrightarrow> is_digit c"
  by (auto simp: pad_dec_def is_digit_def dest: nat_dec_set)

lemma trim_right_pad: "trim_right c s @ replicate (length s - length (trim_right c s)) c = s"
proof -
  have "takeWhile (\<lambda>x. x = c) r = replicate (length r - length (dropWhile (\<lambda>x. x = c) r)) c" for r
    by (induction r) (auto simp: Suc_diff_le length_dropWhile_le)
  then have "rev s = replicate (length s - length (trim_right c s)) c @ dropWhile (\<lambda>x. x = c) (rev s)"
    by (metis length_rev takeWhile_dropWhile_id trim_right_def)
  then show ?thesis
    by (metis rev_append rev_replicate rev_rev_ident trim_right_def)
qed

lemma read_frac_text: "n < 10 ^ 9 \<Longrightarrow> read_frac (frac_text n @ ''Z'') = n"
proof (cases "n = 0")
  case False
  assume n: "n < 10 ^ 9"
  let ?f = "trim_right CHR ''0'' (pad_dec 9 n)"
  have dig: "\<forall>c \<in> set ?f. is_digit c"
    using trim_right_set [of "CHR ''0''" "pad_dec 9 n"] pad_dec_digits by blast
  have "takeWhile is_digit (?f @ ''Z'') = ?f"
    using dig by (simp add: takeWhile_append is_digit_def)
  moreover have "length (pad_dec 9 n) = 9" using n by (intro length_pad_dec) simp_all
  ultimately show ?thesis
    using False trim_right_pad [of "CHR ''0''" "pad_dec 9 n"]
    by (simp add: read_frac_def frac_text_def Let_def)
qed (simp add: read_frac_def frac_text_def)

lemma days_before_year_mono: "y \<le> y' \<Longrightarrow> days_before_year y \<le> days_before_year y'"
proof (induction y' rule: int_ge_induct)
  case (step i)
  then show ?case using year_len_pos [of i] days_before_next_year [of i] by linarith
qed simp

lemma civil_year_range:
  assumes "civil_of_days n = (y, m, d)" "0 \<le> n" "n < 2932897"
  shows "1970 \<le> y" "y \<le> 9999"
proof -
  obtain yd where yd: "days_before_year y + yd = n" "0 \<le> yd" "yd < year_len y"
    using civil_year_day [OF assms(1)] by blast
  have k: "days_before_year 1970 = 0" "days_before_year 10000 = 2932897"
    by (simp_all add: days_before_year_def)
  show "1970 \<le> y"
  proof (rule ccontr)
    assume "\<not> 1970 \<le> y"
    then have "days_before_year (y + 1) \<le> days_before_year 1970" by (intro days_before_year_mono) simp
    with yd assms(2) k show False by (simp add: days_before_next_year)
  qed
  show "y \<le> 9999"
  proof (rule ccontr)
    assume "\<not> y \<le> 9999"
    then have "days_before_year 10000 \<le> days_before_year y" by (intro days_before_year_mono) simp
    with yd assms(3) k show False by simp
  qed
qed

lemma drop_fields:
  assumes "length a = 4" "length b = 2" "length c = 2" "length h = 2" "length i = 2" "length s = 2"
    and "x = a @ ''-'' @ b @ ''-'' @ c @ ''T'' @ h @ '':'' @ i @ '':'' @ s @ r"
  shows "take 4 x = a" "take 2 (drop 5 x) = b" "take 2 (drop 8 x) = c"
    "take 2 (drop 11 x) = h" "take 2 (drop 14 x) = i" "take 2 (drop 17 x) = s" "drop 19 x = r"
  using assms by simp_all

lemma read_format:
  assumes "0 \<le> t" "t < 253402300800 * nanos_per_sec"
  shows "read_rfc3339 (format_rfc3339_nano t) = t"
proof -
  define secs sod where "secs = unix_secs t" and "sod = nat (secs mod 86400)"
  obtain y m d where c: "civil_of_days (secs div 86400) = (y, m, d)" by (metis prod_cases3)
  have s: "0 \<le> secs" "secs < 253402300800"
    using assms by (simp_all add: secs_def unix_secs_def nanos_per_sec_def div_less_iff_less_mult
        pos_imp_zdiv_nonneg_iff)
  then have n: "0 \<le> secs div 86400" "secs div 86400 < 2932897" by simp_all
  note r = civil_of_days_spec [OF c] civil_year_range [OF c n]
  have sod: "sod < 86400" "int sod = secs mod 86400"
    by (simp_all add: sod_def nat_less_iff)
  have hms: "sod div 3600 < 100" "sod div 60 mod 60 < 100" "sod mod 60 < 100"
    using sod(1) by simp_all
  let ?x = "format_rfc3339_nano t"
  have x: "?x = pad_dec 4 (nat y) @ ''-'' @ pad_dec 2 (nat m) @ ''-'' @ pad_dec 2 (nat d) @ ''T''
      @ pad_dec 2 (sod div 3600) @ '':'' @ pad_dec 2 (sod div 60 mod 60) @ '':''
      @ pad_dec 2 (sod mod 60) @ (frac_text (nanos t) @ ''Z'')"
    using r by (simp add: format_rfc3339_nano_def secs_def [symmetric] sod_def [symmetric] c
        append_int_def Let_def)
  note f = drop_fields [OF _ _ _ _ _ _ x]
  have len: "length (pad_dec 4 (nat y)) = 4" "length (pad_dec 2 (nat m)) = 2"
    "length (pad_dec 2 (nat d)) = 2" "length (pad_dec 2 (sod div 3600)) = 2"
    "length (pad_dec 2 (sod div 60 mod 60)) = 2" "length (pad_dec 2 (sod mod 60)) = 2"
    using r hms by (auto intro!: length_pad_dec)
  have nan: "read_frac (frac_text (nanos t) @ ''Z'') = nanos t"
    by (rule read_frac_text) (simp add: nanos_def nanos_per_sec_def nat_less_iff)
  have eq: "(sod div 3600) * 3600 + (sod div 60 mod 60) * 60 + sod mod 60 = sod"
  proof -
    have "sod div 3600 = sod div 60 div 60" by (simp add: div_mult2_eq [symmetric])
    then show ?thesis
      using mult_div_mod_eq [of 60 sod] mult_div_mod_eq [of 60 "sod div 60"] by linarith
  qed
  have tod: "int (sod div 3600) * 3600 + int (sod div 60 mod 60) * 60 + int (sod mod 60)
      = secs mod 86400"
    using arg_cong [OF eq, of int] by (simp only: of_nat_add of_nat_mult of_nat_numeral sod(2))
  have "read_rfc3339 ?x = (secs div 86400 * 86400 + (int (sod div 3600) * 3600
      + int (sod div 60 mod 60) * 60 + int (sod mod 60))) * nanos_per_sec + int (nanos t)"
    using r by (simp add: read_rfc3339_def Let_def f [OF len] nan add.assoc)
  also have "\<dots> = t"
    unfolding tod div_mult_mod_eq using div_mult_mod_eq [of t nanos_per_sec]
    by (simp add: secs_def unix_secs_def nanos_def nanos_per_sec_def del: div_mult_mod_eq)
  finally show ?thesis .
qed

end
