(* ===== verification/Utf8.thy ===== *)
theory Utf8
  imports Prelude
begin

text \<open>
  Go's \<open>unicode/utf8\<close> as the code uses it: the conversion of a string to runes
  (\<open>[]rune(s)\<close> in \<open>safeHead\<close> and \<open>safeTail\<close>), the conversion back, and the rune
  decoding inside \<open>encoding/json\<close>.  A rune is a \<^typ>\<open>nat\<close>.  An invalid byte decodes to the
  replacement rune and is one byte wide, as in Go.  The main fact is that decoding inverts
  encoding on every scalar value, so that a well-formed string survives the conversions.
\<close>

definition rune_error :: nat where
  "rune_error = 0xFFFD"

definition is_cont :: "char \<Rightarrow> bool" where
  "is_cont c \<longleftrightarrow> 0x80 \<le> byte c \<and> byte c \<le> 0xBF"

text \<open>Unicode scalar values: code points that are not surrogates.\<close>

definition is_scalar :: "nat \<Rightarrow> bool" where
  "is_scalar r \<longleftrightarrow> r < 0xD800 \<or> (0xE000 \<le> r \<and> r \<le> 0x10FFFF)"

text \<open>\<open>utf8.AppendRune\<close>: surrogates and values above the last plane become the
  replacement rune.\<close>

definition encode_rune :: "nat \<Rightarrow> string" where
  "encode_rune r0 = (let r = (if is_scalar r0 then r0 else rune_error) in
     if r < 0x80 then [chr r]
     else if r < 0x800 then [chr (0xC0 + r div 64), chr (0x80 + r mod 64)]
     else if r < 0x10000 then
       [chr (0xE0 + r div 4096), chr (0x80 + r div 64 mod 64), chr (0x80 + r mod 64)]
     else [chr (0xF0 + r div 262144), chr (0x80 + r div 4096 mod 64),
           chr (0x80 + r div 64 mod 64), chr (0x80 + r mod 64)])"

text \<open>The second byte's range, by the first byte (the accept ranges of the package).\<close>

definition accept_second :: "nat \<Rightarrow> char \<Rightarrow> bool" where
  "accept_second b0 c \<longleftrightarrow>
     (if b0 = 0xE0 then 0xA0 \<le> byte c \<and> byte c \<le> 0xBF
      else if b0 = 0xED then 0x80 \<le> byte c \<and> byte c \<le> 0x9F
      else if b0 = 0xF0 then 0x90 \<le> byte c \<and> byte c \<le> 0xBF
      else if b0 = 0xF4 then 0x80 \<le> byte c \<and> byte c \<le> 0x8F
      else is_cont c)"

text \<open>\<open>utf8.DecodeRuneInString\<close>: the first rune and its width; \<open>(rune_error, 1)\<close> for an
  invalid sequence and \<open>(rune_error, 0)\<close> for the empty string.\<close>

definition decode_tail :: "nat \<Rightarrow> string \<Rightarrow> nat \<times> nat" where
  "decode_tail b0 s =
     (if 0xC2 \<le> b0 \<and> b0 \<le> 0xDF then
        (case s of
           c1 # _ \<Rightarrow> if is_cont c1 then ((b0 - 0xC0) * 64 + (byte c1 - 0x80), 2) else (rune_error, 1)
         | _ \<Rightarrow> (rune_error, 1))
      else if 0xE0 \<le> b0 \<and> b0 \<le> 0xEF then
        (case s of
           c1 # c2 # _ \<Rightarrow>
             if accept_second b0 c1 \<and> is_cont c2
             then ((b0 - 0xE0) * 4096 + (byte c1 - 0x80) * 64 + (byte c2 - 0x80), 3)
             else (rune_error, 1)
         | _ \<Rightarrow> (rune_error, 1))
      else if 0xF0 \<le> b0 \<and> b0 \<le> 0xF4 then
        (case s of
           c1 # c2 # c3 # _ \<Rightarrow>
             if accept_second b0 c1 \<and> is_cont c2 \<and> is_cont c3
             then ((b0 - 0xF0) * 262144 + (byte c1 - 0x80) * 4096 + (byte c2 - 0x80) * 64
                   + (byte c3 - 0x80), 4)
             else (rune_error, 1)
         | _ \<Rightarrow> (rune_error, 1))
      else (rune_error, 1))"

definition decode_rune :: "string \<Rightarrow> nat \<times> nat" where
  "decode_rune s = (case s of
       [] \<Rightarrow> (rune_error, 0)
     | c0 # rest \<Rightarrow> if byte c0 < 0x80 then (byte c0, 1) else decode_tail (byte c0) rest)"

lemma decode_rune_width: "s \<noteq> [] \<Longrightarrow> 1 \<le> snd (decode_rune s) \<and> snd (decode_rune s) \<le> length s"
  by (cases s) (auto simp: decode_rune_def decode_tail_def split: list.split)

text \<open>The whole string, as its runes with the bytes each was read from.\<close>

function rune_chunks :: "string \<Rightarrow> (nat \<times> string) list" where
  "rune_chunks s = (if s = [] then []
     else (let (r, n) = decode_rune s in (r, take n s) # rune_chunks (drop n s)))"
  by pat_completeness auto
termination
proof (relation "measure length")
  fix s :: string and x r n
  assume "s \<noteq> []" "x = decode_rune s" "(r, n) = x"
  then show "(drop n s, s) \<in> measure length"
    using decode_rune_width [of s] by (cases s) (auto simp: prod_eq_iff)
qed simp

declare rune_chunks.simps [simp del]

lemma rune_chunks_Nil [simp]: "rune_chunks [] = []"
  by (simp add: rune_chunks.simps)

definition runes :: "string \<Rightarrow> nat list" where
  "runes s = map fst (rune_chunks s)"

definition string_of_runes :: "nat list \<Rightarrow> string" where
  "string_of_runes rs = concat (map encode_rune rs)"

text \<open>Well-formed UTF-8: the encodings of scalar values.\<close>

definition valid_utf8 :: "string \<Rightarrow> bool" where
  "valid_utf8 s \<longleftrightarrow> list_all is_scalar (runes s) \<and> string_of_runes (runes s) = s"

lemma concat_chunks: "concat (map snd (rune_chunks s)) = s"
proof (induction s rule: rune_chunks.induct)
  case (1 s)
  then show ?case
    by (subst rune_chunks.simps) (auto split: prod.split)
qed

subsection \<open>Decoding inverts encoding\<close>

lemma encode_rune_len: "1 \<le> length (encode_rune r) \<and> length (encode_rune r) \<le> 4"
  by (simp add: encode_rune_def Let_def)

lemma encode_rune_nonempty [simp]: "encode_rune r \<noteq> []"
  by (simp add: encode_rune_def Let_def)

lemma decode_ascii: "r < 0x80 \<Longrightarrow> decode_rune (chr r # s) = (r, 1)"
  by (simp add: decode_rune_def)

lemma decode_two:
  assumes "0x80 \<le> r" "r < 0x800"
  shows "decode_rune (chr (0xC0 + r div 64) # chr (0x80 + r mod 64) # s) = (r, 2)"
proof -
  have "r div 64 < 32" "2 \<le> r div 64" using assms by auto
  moreover have "r mod 64 < 64" by simp
  ultimately show ?thesis
    by (simp add: decode_rune_def decode_tail_def is_cont_def)
qed

lemma split_base64_3: "(r::nat) = r div 4096 * 4096 + r div 64 mod 64 * 64 + r mod 64"
proof -
  have d: "r div 4096 = r div 64 div 64" by (simp add: div_mult2_eq [symmetric])
  have "r = r div 64 * 64 + r mod 64" by simp
  moreover have "r div 64 = r div 64 div 64 * 64 + r div 64 mod 64" by simp
  ultimately show ?thesis unfolding d by linarith
qed

lemma split_base64_4:
  "(r::nat) = r div 262144 * 262144 + r div 4096 mod 64 * 4096 + r div 64 mod 64 * 64 + r mod 64"
proof -
  have d: "r div 262144 = r div 4096 div 64" by (simp add: div_mult2_eq [symmetric])
  have "r div 4096 = r div 4096 div 64 * 64 + r div 4096 mod 64" by simp
  with split_base64_3 [of r] show ?thesis unfolding d by linarith
qed

lemma decode_three:
  assumes "0x800 \<le> r" "r < 0x10000" "is_scalar r"
  shows "decode_rune (chr (0xE0 + r div 4096) # chr (0x80 + r div 64 mod 64)
           # chr (0x80 + r mod 64) # s) = (r, 3)"
proof -
  define a b c where "a = r div 4096" "b = r div 64 mod 64" "c = r mod 64"
  have r: "r = a * 4096 + b * 64 + c" and bc: "b < 64" "c < 64"
    unfolding a_b_c_def by (rule split_base64_3, simp_all)
  have "a < 16" using assms r by simp
  moreover have "a = 0 \<Longrightarrow> 32 \<le> b" using assms r bc by simp
  moreover have "a = 13 \<Longrightarrow> b < 32" using assms r bc by (auto simp: is_scalar_def)
  ultimately have "decode_rune (chr (0xE0 + a) # chr (0x80 + b) # chr (0x80 + c) # s) = (r, 3)"
    using bc r by (auto simp: decode_rune_def decode_tail_def is_cont_def accept_second_def)
  then show ?thesis by (simp add: a_b_c_def)
qed

lemma decode_four:
  assumes "0x10000 \<le> r" "r \<le> 0x10FFFF"
  shows "decode_rune (chr (0xF0 + r div 262144) # chr (0x80 + r div 4096 mod 64)
           # chr (0x80 + r div 64 mod 64) # chr (0x80 + r mod 64) # s) = (r, 4)"
proof -
  define a b c d where "a = r div 262144" "b = r div 4096 mod 64" "c = r div 64 mod 64" "d = r mod 64"
  have r: "r = a * 262144 + b * 4096 + c * 64 + d" and bcd: "b < 64" "c < 64" "d < 64"
    unfolding a_b_c_d_def by (rule split_base64_4, simp_all)
  have "a < 5" using assms r by simp
  moreover have "a = 0 \<Longrightarrow> 16 \<le> b" using assms r bcd by simp
  moreover have "a = 4 \<Longrightarrow> b < 16" using assms r bcd by simp
  ultimately have "decode_rune (chr (0xF0 + a) # chr (0x80 + b) # chr (0x80 + c) # chr (0x80 + d) # s)
      = (r, 4)"
    using bcd r by (auto simp: decode_rune_def decode_tail_def is_cont_def accept_second_def)
  then show ?thesis by (simp add: a_b_c_d_def)
qed

lemma decode_encode_rune:
  assumes "is_scalar r"
  shows "decode_rune (encode_rune r @ s) = (r, length (encode_rune r))"
  using assms decode_ascii [of r s] decode_two [of r s] decode_three [of r s] decode_four [of r s]
  by (auto simp: encode_rune_def Let_def is_scalar_def)

lemma rune_chunks_encode:
  "is_scalar r \<Longrightarrow> rune_chunks (encode_rune r @ s) = (r, encode_rune r) # rune_chunks s"
  by (subst rune_chunks.simps) (simp add: decode_encode_rune)

lemma rune_chunks_string_of_runes:
  "list_all is_scalar rs \<Longrightarrow> rune_chunks (string_of_runes rs) = map (\<lambda>r. (r, encode_rune r)) rs"
  by (induction rs) (simp_all add: string_of_runes_def rune_chunks_encode)

theorem runes_string_of_runes: "list_all is_scalar rs \<Longrightarrow> runes (string_of_runes rs) = rs"
  by (simp add: runes_def rune_chunks_string_of_runes comp_def)

lemma valid_utf8_string_of_runes: "list_all is_scalar rs \<Longrightarrow> valid_utf8 (string_of_runes rs)"
  by (simp add: valid_utf8_def runes_string_of_runes)

text \<open>Every decoded rune is a scalar value, so string-to-rune conversion followed by the way
  back always yields well-formed text.\<close>

lemma is_scalar_rune_error [simp]: "is_scalar rune_error"
  by (simp add: is_scalar_def rune_error_def)

lemma scalar_lowI: "r < 0xD800 \<Longrightarrow> is_scalar r"
  and scalar_highI: "0xE000 \<le> r \<Longrightarrow> r \<le> 0x10FFFF \<Longrightarrow> is_scalar r"
  by (simp_all add: is_scalar_def)

lemma scalar_three:
  assumes "accept_second b0 c1" "is_cont c2" "0xE0 \<le> b0" "b0 \<le> 0xEF"
  shows "is_scalar ((b0 - 0xE0) * 4096 + (byte c1 - 0x80) * 64 + (byte c2 - 0x80))"
proof -
  have c1: "byte c1 \<le> 0xBF" "b0 = 0xED \<Longrightarrow> byte c1 \<le> 0x9F"
    using assms(1) by (simp_all add: accept_second_def is_cont_def split: if_splits)
  have c2: "byte c2 \<le> 0xBF" using assms(2) by (simp add: is_cont_def)
  consider "b0 < 0xED" | "b0 = 0xED" | "0xED < b0" by linarith
  then show ?thesis
  proof cases
    case 1
    show ?thesis by (rule scalar_lowI) (use 1 c1(1) c2 in linarith)
  next
    case 2
    then have "byte c1 \<le> 0x9F" by (rule c1(2))
    then show ?thesis by (intro scalar_lowI) (use 2 c2 in linarith)
  next
    case 3
    show ?thesis by (rule scalar_highI) (use 3 c1(1) c2 assms(4) in linarith)+
  qed
qed

lemma scalar_four:
  assumes "accept_second b0 c1" "is_cont c2" "is_cont c3" "0xF0 \<le> b0" "b0 \<le> 0xF4"
  shows "is_scalar ((b0 - 0xF0) * 262144 + (byte c1 - 0x80) * 4096 + (byte c2 - 0x80) * 64
    + (byte c3 - 0x80))"
proof -
  have c1: "byte c1 \<le> 0xBF" "b0 = 0xF0 \<Longrightarrow> 0x90 \<le> byte c1" "b0 = 0xF4 \<Longrightarrow> byte c1 \<le> 0x8F"
    using assms(1) by (simp_all add: accept_second_def is_cont_def split: if_splits)
  have c: "byte c2 \<le> 0xBF" "byte c3 \<le> 0xBF" using assms(2,3) by (simp_all add: is_cont_def)
  have "0x10000 \<le> (b0 - 0xF0) * 262144 + (byte c1 - 0x80) * 4096"
  proof (cases "b0 = 0xF0")
    case True
    then have "0x90 \<le> byte c1" by (rule c1(2))
    then show ?thesis by linarith
  qed (use assms(4) in linarith)
  moreover have "(b0 - 0xF0) * 262144 + (byte c1 - 0x80) * 4096 \<le> 0x10F000"
  proof (cases "b0 = 0xF4")
    case True
    then have "byte c1 \<le> 0x8F" by (rule c1(3))
    with True show ?thesis by linarith
  qed (use assms(4,5) c1(1) in linarith)
  ultimately show ?thesis by (intro scalar_highI) (use c in linarith)+
qed

text \<open>What a successful multi-byte decoding says about the text.\<close>

lemma decode_tail_cases:
  assumes "decode_tail b0 s = (r, n)" "\<not> (r = rune_error \<and> n = 1)"
  obtains
    (two) c1 t where "0xC2 \<le> b0" "b0 \<le> 0xDF" "s = c1 # t" "is_cont c1" "n = 2"
      "r = (b0 - 0xC0) * 64 + (byte c1 - 0x80)"
  | (three) c1 c2 t where "0xE0 \<le> b0" "b0 \<le> 0xEF" "s = c1 # c2 # t" "accept_second b0 c1"
      "is_cont c2" "n = 3" "r = (b0 - 0xE0) * 4096 + (byte c1 - 0x80) * 64 + (byte c2 - 0x80)"
  | (four) c1 c2 c3 t where "0xF0 \<le> b0" "b0 \<le> 0xF4" "s = c1 # c2 # c3 # t"
      "accept_second b0 c1" "is_cont c2" "is_cont c3" "n = 4"
      "r = (b0 - 0xF0) * 262144 + (byte c1 - 0x80) * 4096 + (byte c2 - 0x80) * 64 + (byte c3 - 0x80)"
proof -
  consider "0xC2 \<le> b0 \<and> b0 \<le> 0xDF" | "0xE0 \<le> b0 \<and> b0 \<le> 0xEF" | "0xF0 \<le> b0 \<and> b0 \<le> 0xF4"
    | "\<not> (0xC2 \<le> b0 \<and> b0 \<le> 0xDF)" "\<not> (0xE0 \<le> b0 \<and> b0 \<le> 0xEF)" "\<not> (0xF0 \<le> b0 \<and> b0 \<le> 0xF4)"
    by blast
  then show thesis
  proof cases
    case 1
    with assms show ?thesis
      by (cases s) (auto simp: decode_tail_def split: if_splits intro: two)
  next
    case 2
    then have "decode_tail b0 s = (case s of
           c1 # c2 # _ \<Rightarrow>
             if accept_second b0 c1 \<and> is_cont c2
             then ((b0 - 0xE0) * 4096 + (byte c1 - 0x80) * 64 + (byte c2 - 0x80), 3)
             else (rune_error, 1)
         | _ \<Rightarrow> (rune_error, 1))" by (simp add: decode_tail_def)
    with 2 assms show ?thesis by (auto split: list.splits if_splits intro: three)
  next
    case 3
    then have "decode_tail b0 s = (case s of
           c1 # c2 # c3 # _ \<Rightarrow>
             if accept_second b0 c1 \<and> is_cont c2 \<and> is_cont c3
             then ((b0 - 0xF0) * 262144 + (byte c1 - 0x80) * 4096 + (byte c2 - 0x80) * 64
                   + (byte c3 - 0x80), 4)
             else (rune_error, 1)
         | _ \<Rightarrow> (rune_error, 1))" by (simp add: decode_tail_def)
    with 3 assms show ?thesis by (auto split: list.splits if_splits intro: four)
  next
    case 4
    then have "decode_tail b0 s = (rune_error, 1)" by (simp only: decode_tail_def if_False)
    with assms show ?thesis by simp
  qed
qed

lemma decode_tail_scalar:
  assumes "decode_tail b0 s = (r, n)"
  shows "is_scalar r"
proof (cases "r = rune_error \<and> n = 1")
  case False
  from assms this show ?thesis
  proof (cases rule: decode_tail_cases)
    case (two c1 t)
    then have "r < 0xD800" unfolding is_cont_def by linarith
    then show ?thesis by (rule scalar_lowI)
  qed (simp_all add: scalar_three scalar_four)
qed simp

lemma decode_rune_scalar: "is_scalar (fst (decode_rune s))"
proof (cases s)
  case (Cons c t)
  then show ?thesis
    using decode_tail_scalar [of "byte c" t] by (cases "decode_tail (byte c) t")
      (auto simp: decode_rune_def is_scalar_def)
qed (simp add: decode_rune_def)

lemma runes_scalar: "list_all is_scalar (runes s)"
proof (induction s rule: rune_chunks.induct)
  case (1 s)
  show ?case
  proof (cases "s = []")
    case False
    then show ?thesis
      using 1 [OF False refl] decode_rune_scalar [of s]
      by (cases "decode_rune s") (simp add: runes_def rune_chunks.simps [of s])
  qed (simp add: runes_def)
qed

lemma valid_utf8_ascii:
  assumes "list_all (\<lambda>c. byte c < 0x80) s"
  shows "valid_utf8 s" and "runes s = map byte s"
proof -
  have e: "string_of_runes (map byte s) = s"
    using assms by (induction s) (auto simp: string_of_runes_def encode_rune_def is_scalar_def)
  have "list_all is_scalar (map byte s)"
    using assms by (induction s) (auto simp: is_scalar_def)
  from valid_utf8_string_of_runes [OF this] runes_string_of_runes [OF this]
  show "valid_utf8 s" "runes s = map byte s" by (simp_all add: e)
qed

lemma length_runes_le: "length (runes s) \<le> length s"
proof (induction s rule: rune_chunks.induct)
  case (1 s)
  show ?case
  proof (cases "s = []")
    case False
    then show ?thesis
      using 1 [OF False refl] decode_rune_width [of s]
      by (cases "decode_rune s") (auto simp: runes_def rune_chunks.simps [of s])
  qed (simp add: runes_def)
qed

end
