(* ===== verification/Encodings.thy ===== *)
theory Encodings
  imports Prelude
begin

text \<open>
  The text encodings of Go's standard library that the session store calls: \<open>encoding/hex\<close>
  for object ids, \<open>base64.StdEncoding\<close> (padded) for cookie signatures and
  \<open>base64.RawURLEncoding\<close> (unpadded) for session ids.  Each comes with its alphabet, its
  length and a decoder that inverts it, from which the encodings are injective.
\<close>

subsection \<open>Hexadecimal\<close>

definition hex_char :: "nat \<Rightarrow> char" where
  "hex_char d = (if d < 10 then chr (48 + d) else chr (87 + d))"

definition hex_val :: "char \<Rightarrow> nat" where
  "hex_val c = (if byte c \<le> 57 then byte c - 48 else byte c - 87)"

definition is_hex_lower :: "char \<Rightarrow> bool" where
  "is_hex_lower c \<longleftrightarrow> (48 \<le> byte c \<and> byte c \<le> 57) \<or> (97 \<le> byte c \<and> byte c \<le> 102)"

fun hex_encode :: "string \<Rightarrow> string" where
  "hex_encode [] = []"
| "hex_encode (c # cs) = hex_char (byte c div 16) # hex_char (byte c mod 16) # hex_encode cs"

fun hex_decode :: "string \<Rightarrow> string" where
  "hex_decode (h # l # cs) = chr (16 * hex_val h + hex_val l) # hex_decode cs"
| "hex_decode _ = []"

lemma hex_char_props [simp]:
  assumes "d < 16"
  shows "hex_val (hex_char d) = d" and "is_hex_lower (hex_char d)"
  using assms by (auto simp: hex_val_def hex_char_def is_hex_lower_def)

lemma byte_div_16 [simp]: "byte c div 16 < 16"
  using byte_lt [of c] by linarith

lemma length_hex_encode [simp]: "length (hex_encode s) = 2 * length s"
  by (induction s rule: hex_encode.induct) simp_all

lemma hex_encode_lower: "list_all is_hex_lower (hex_encode s)"
  by (induction s rule: hex_encode.induct) simp_all

lemma hex_decode_encode [simp]: "hex_decode (hex_encode s) = s"
  by (induction s rule: hex_encode.induct) simp_all

lemma hex_encode_append: "hex_encode (a @ b) = hex_encode a @ hex_encode b"
  by (induction a rule: hex_encode.induct) simp_all

lemma hex_encode_inj: "hex_encode a = hex_encode b \<longleftrightarrow> a = b"
  by (metis hex_decode_encode)

subsection \<open>Base64\<close>

definition std_char :: "nat \<Rightarrow> char" where
  "std_char n = (if n < 26 then chr (65 + n) else if n < 52 then chr (71 + n)
     else if n < 62 then chr (n - 4) else if n = 62 then CHR ''+'' else CHR ''/'')"

definition url_char :: "nat \<Rightarrow> char" where
  "url_char n = (if n < 26 then chr (65 + n) else if n < 52 then chr (71 + n)
     else if n < 62 then chr (n - 4) else if n = 62 then CHR ''-'' else CHR ''_'')"

definition base64_val :: "char \<Rightarrow> nat" where
  "base64_val c = (let b = byte c in
     if b = 43 \<or> b = 45 then 62 else if b = 47 \<or> b = 95 then 63
     else if b \<le> 57 then b + 4 else if b \<le> 90 then b - 65 else b - 71)"

definition is_alnum :: "char \<Rightarrow> bool" where
  "is_alnum c \<longleftrightarrow> (let b = byte c in
     (48 \<le> b \<and> b \<le> 57) \<or> (65 \<le> b \<and> b \<le> 90) \<or> (97 \<le> b \<and> b \<le> 122))"

text \<open>One encoder for both alphabets; \<open>pad\<close> says whether the last group is filled
  with \<open>=\<close>.\<close>

fun base64_encode :: "(nat \<Rightarrow> char) \<Rightarrow> bool \<Rightarrow> string \<Rightarrow> string" where
  "base64_encode al pad [] = []"
| "base64_encode al pad [a] =
     [al (byte a div 4), al (byte a mod 4 * 16)] @ (if pad then ''=='' else [])"
| "base64_encode al pad [a, b] =
     [al (byte a div 4), al (byte a mod 4 * 16 + byte b div 16), al (byte b mod 16 * 4)]
     @ (if pad then ''='' else [])"
| "base64_encode al pad (a # b # c # rest) =
     [al (byte a div 4), al (byte a mod 4 * 16 + byte b div 16),
      al (byte b mod 16 * 4 + byte c div 64), al (byte c mod 64)] @ base64_encode al pad rest"

abbreviation std_encode :: "string \<Rightarrow> string" where
  "std_encode \<equiv> base64_encode std_char True"

abbreviation raw_url_encode :: "string \<Rightarrow> string" where
  "raw_url_encode \<equiv> base64_encode url_char False"

fun base64_decode :: "string \<Rightarrow> string" where
  "base64_decode (w # x # y # z # rest) =
     (let w = base64_val w; x = base64_val x; y = base64_val y; z = base64_val z in
      chr (w * 4 + x div 16) # chr (x mod 16 * 16 + y div 4) # chr (y mod 4 * 64 + z)
      # base64_decode rest)"
| "base64_decode [w, x, y] =
     (let w = base64_val w; x = base64_val x; y = base64_val y in
      [chr (w * 4 + x div 16), chr (x mod 16 * 16 + y div 4)])"
| "base64_decode [w, x] =
     (let w = base64_val w; x = base64_val x in [chr (w * 4 + x div 16)])"
| "base64_decode _ = []"

lemma base64_val_chars [simp]:
  assumes "n < 64"
  shows "base64_val (std_char n) = n" and "base64_val (url_char n) = n"
  using assms by (auto simp: base64_val_def std_char_def url_char_def Let_def)

lemma std_char_class: "n < 64 \<Longrightarrow> is_alnum (std_char n) \<or> std_char n \<in> {CHR ''+'', CHR ''/''}"
  by (auto simp: std_char_def is_alnum_def Let_def)

lemma url_char_class: "n < 64 \<Longrightarrow> is_alnum (url_char n) \<or> url_char n \<in> {CHR ''-'', CHR ''_''}"
  by (auto simp: url_char_def is_alnum_def Let_def)

lemma sextet_bounds [simp]:
  "byte a div 4 < 64" "byte a mod 4 * 16 + byte b div 16 < 64"
  "byte b mod 16 * 4 + byte c div 64 < 64" "byte a mod 4 * 16 < 64" "byte b mod 16 * 4 < 64"
proof -
  have "byte a < 256" "byte b < 256" "byte c < 256" by simp_all
  moreover have "byte a mod 4 < 4" "byte b mod 16 < 16" by simp_all
  ultimately show "byte a div 4 < 64" "byte a mod 4 * 16 + byte b div 16 < 64"
    "byte b mod 16 * 4 + byte c div 64 < 64" "byte a mod 4 * 16 < 64" "byte b mod 16 * 4 < 64"
    by linarith+
qed

lemma base64_encode_set:
  "set (base64_encode al pad s) \<subseteq> al ` {..<64} \<union> (if pad then {CHR ''=''} else {})"
  by (induction al pad s rule: base64_encode.induct) (auto intro!: imageI)

lemma std_no_pad_set:
  "c \<in> set (base64_encode std_char False s) \<Longrightarrow> is_alnum c \<or> c = CHR ''+'' \<or> c = CHR ''/''"
  using base64_encode_set [of std_char False s] std_char_class by fastforce

lemma raw_url_set:
  "c \<in> set (raw_url_encode s) \<Longrightarrow> is_alnum c \<or> c = CHR ''-'' \<or> c = CHR ''_''"
  using base64_encode_set [of url_char False s] url_char_class by fastforce

lemma base64_encode_pad:
  "\<exists>n. base64_encode al True s = base64_encode al False s @ replicate n (CHR ''='')"
proof (induction al "True" s rule: base64_encode.induct)
  case (1 al)
  show ?case by (rule exI [of _ 0]) simp
next
  case (2 al a)
  show ?case by (rule exI [of _ 2]) (simp add: numeral_2_eq_2)
next
  case (3 al a b)
  show ?case by (rule exI [of _ 1]) simp
next
  case (4 al a b c rest)
  then show ?case by auto
qed

text \<open>Stripping the padding leaves exactly the unpadded encoding.\<close>

lemma trim_std_encode: "trim_right (CHR ''='') (std_encode s) = base64_encode std_char False s"
proof -
  have "CHR ''='' \<notin> set (base64_encode std_char False s)"
    using std_no_pad_set [of "CHR ''=''" s] by (auto simp: is_alnum_def)
  moreover obtain n where "std_encode s = base64_encode std_char False s @ replicate n (CHR ''='')"
    using base64_encode_pad by blast
  ultimately show ?thesis by (simp add: trim_right_append_pad)
qed

lemma add3_div_mod: "(3 + n) div 3 = Suc (n div 3)" "(3 + n) mod 3 = n mod 3" for n :: nat
  by presburger+

lemma length_base64_raw:
  "length (base64_encode al False s)
     = 4 * (length s div 3) + (if length s mod 3 = 0 then 0 else length s mod 3 + 1)"
  by (induction al "False" s rule: base64_encode.induct) (simp_all add: add3_div_mod)

lemma byte_div_64 [simp]: "byte c div 64 < 4"
  using byte_lt [of c] by linarith

lemma base64_decode_encode:
  "(\<And>n. n < 64 \<Longrightarrow> base64_val (al n) = n) \<Longrightarrow> base64_decode (base64_encode al False s) = s"
  by (induction al "False" s rule: base64_encode.induct) (simp_all add: Let_def)

lemma raw_url_decode [simp]: "base64_decode (raw_url_encode s) = s"
  by (rule base64_decode_encode) simp

lemma std_decode [simp]: "base64_decode (base64_encode std_char False s) = s"
  by (rule base64_decode_encode) simp

lemma raw_url_inj: "raw_url_encode a = raw_url_encode b \<longleftrightarrow> a = b"
  by (metis raw_url_decode)

lemma std_raw_inj: "base64_encode std_char False a = base64_encode std_char False b \<longleftrightarrow> a = b"
  by (metis std_decode)

end
