(* ===== verification/Json.thy ===== *)
theory Json
  imports Utf8 Encodings
begin

text \<open>
  The part of Go's \<open>encoding/json\<close> the session store uses: marshalling of a string (with
  the HTML escapes \<open>json.Marshal\<close> applies) and \<open>json.Unmarshal\<close> of a text into a
  \<open>string\<close> variable.  \<open>json_body_quote\<close> and \<open>unmarshal_quote\<close> are the round trip: what
  is marshalled is read back, with invalid bytes replaced; well-formed UTF-8 is unchanged.
\<close>

abbreviation bslash :: char where
  "bslash \<equiv> CHR 0x5C"

abbreviation dquote :: char where
  "dquote \<equiv> CHR 0x22"

subsection \<open>Marshalling a string\<close>

definition quote_ascii :: "char \<Rightarrow> string" where
  "quote_ascii c = (let b = byte c in
     if c = bslash \<or> c = dquote then [bslash, c]
     else if b = 8 then bslash # ''b''
     else if b = 12 then bslash # ''f''
     else if b = 10 then bslash # ''n''
     else if b = 13 then bslash # ''r''
     else if b = 9 then bslash # ''t''
     else if b < 0x20 \<or> c = CHR ''&'' \<or> c = CHR ''<'' \<or> c = CHR ''>''
       then bslash # ''u00'' @ [hex_char (b div 16), hex_char (b mod 16)]
     else [c])"

fun quote_chunk :: "nat \<times> string \<Rightarrow> string" where
  "quote_chunk (r, bs) =
     (if r < 0x80 then quote_ascii (chr r)
      else if r = rune_error \<and> length bs = 1 then bslash # ''ufffd''
      else if r = 0x2028 \<or> r = 0x2029 then bslash # ''u202'' @ [hex_char (r mod 16)]
      else bs)"

definition json_quote :: "string \<Rightarrow> string" where
  "json_quote s = dquote # concat (map quote_chunk (rune_chunks s)) @ [dquote]"

subsection \<open>Reading a string\<close>

definition json_space :: "char \<Rightarrow> bool" where
  "json_space c \<longleftrightarrow> byte c = 32 \<or> byte c = 9 \<or> byte c = 10 \<or> byte c = 13"

definition json_hex :: "char \<Rightarrow> nat option" where
  "json_hex c = (let b = byte c in
     if 48 \<le> b \<and> b \<le> 57 then Some (b - 48)
     else if 97 \<le> b \<and> b \<le> 102 then Some (b - 87)
     else if 65 \<le> b \<and> b \<le> 70 then Some (b - 55) else None)"

fun hex4 :: "string \<Rightarrow> (nat \<times> string) option" where
  "hex4 (a # b # c # d # rest) =
     (case (json_hex a, json_hex b, json_hex c, json_hex d) of
        (Some w, Some x, Some y, Some z) \<Rightarrow> Some (w * 4096 + x * 256 + y * 16 + z, rest)
      | _ \<Rightarrow> None)"
| "hex4 _ = None"

definition is_surrogate :: "nat \<Rightarrow> bool" where
  "is_surrogate r \<longleftrightarrow> 0xD800 \<le> r \<and> r < 0xE000"

text \<open>\<open>utf16.DecodeRune\<close> of a pair, when it is one.\<close>

definition decode_pair :: "nat \<Rightarrow> nat \<Rightarrow> nat option" where
  "decode_pair r1 r2 =
     (if 0xD800 \<le> r1 \<and> r1 < 0xDC00 \<and> 0xDC00 \<le> r2 \<and> r2 < 0xE000
      then Some ((r1 - 0xD800) * 1024 + (r2 - 0xDC00) + 0x10000) else None)"

text \<open>A \<open>\\u\<close> escape after its four digits: a surrogate is combined with a following
  escape if the two form a pair, and is otherwise replaced.\<close>

definition unicode_escape :: "nat \<Rightarrow> string \<Rightarrow> nat \<times> string" where
  "unicode_escape rr s =
     (if is_surrogate rr then
        (case s of
           c # u # s' \<Rightarrow>
             if c = bslash \<and> u = CHR ''u'' then
               (case hex4 s' of
                  Some (rr1, s'') \<Rightarrow>
                    (case decode_pair rr rr1 of Some r \<Rightarrow> (r, s'') | None \<Rightarrow> (rune_error, s))
                | None \<Rightarrow> (rune_error, s))
             else (rune_error, s)
         | _ \<Rightarrow> (rune_error, s))
      else (rr, s))"

definition simple_escape :: "char \<Rightarrow> char option" where
  "simple_escape e =
     (if e = dquote \<or> e = bslash \<or> e = CHR ''/'' then Some e
      else if e = CHR ''b'' then Some (chr 8) else if e = CHR ''f'' then Some (chr 12)
      else if e = CHR ''n'' then Some (chr 10) else if e = CHR ''r'' then Some (chr 13)
      else if e = CHR ''t'' then Some (chr 9) else None)"

lemma hex4_length: "hex4 s = Some (r, s') \<Longrightarrow> length s' < length s"
  by (cases s rule: hex4.cases) (auto split: option.splits)

lemma unicode_escape_length: "length (snd (unicode_escape r s)) \<le> length s"
  by (auto simp: unicode_escape_def split: list.splits option.splits dest: hex4_length)

text \<open>The text after an opening quote: the value and what follows the closing quote.\<close>

function json_body :: "string \<Rightarrow> (string \<times> string) option" where
  "json_body [] = None"
| "json_body (c # s) =
     (if c = dquote then Some ([], s)
      else if c = bslash then
        (case s of
           [] \<Rightarrow> None
         | e # s' \<Rightarrow>
             if e = CHR ''u'' then
               (case hex4 s' of
                  None \<Rightarrow> None
                | Some (rr, s2) \<Rightarrow>
                    map_option (\<lambda>(v, t). (encode_rune (fst (unicode_escape rr s2)) @ v, t))
                      (json_body (snd (unicode_escape rr s2))))
             else (case simple_escape e of
                     None \<Rightarrow> None
                   | Some x \<Rightarrow> map_option (\<lambda>(v, t). (x # v, t)) (json_body s')))
      else if byte c < 0x20 then None
      else map_option (\<lambda>(v, t). (encode_rune (fst (decode_rune (c # s))) @ v, t))
             (json_body (drop (snd (decode_rune (c # s))) (c # s))))"
  by pat_completeness auto
termination
proof (relation "measure length")
  fix c s e s' x rr s2
  assume "s = e # s'" "hex4 s' = Some x" "(rr, s2) = x"
  then show "(snd (unicode_escape rr s2), c # s) \<in> measure length"
    using hex4_length [of s' rr s2] unicode_escape_length [of rr s2] by simp
next
  fix c :: char and s :: string
  show "(drop (snd (decode_rune (c # s))) (c # s), c # s) \<in> measure length"
    using decode_rune_width [of "c # s"] by simp
qed auto

declare json_body.simps(2) [simp del]

text \<open>\<open>json.Unmarshal(text, &v)\<close> for a string \<open>v\<close> that is empty before: \<^term>\<open>None\<close> is an
  error; \<open>null\<close> is no error and leaves \<open>v\<close> empty.\<close>

definition unmarshal_string :: "string \<Rightarrow> string option" where
  "unmarshal_string text =
     (let s = dropWhile json_space text in
      case s of
        [] \<Rightarrow> None
      | c # s' \<Rightarrow>
          if c = dquote then
            (case json_body s' of
               None \<Rightarrow> None
             | Some (v, rest) \<Rightarrow> if list_all json_space rest then Some v else None)
          else if take 4 s = ''null'' \<and> list_all json_space (drop 4 s) then Some []
          else None)"

subsection \<open>Round trip\<close>

lemma json_hex_char [simp]: "d < 16 \<Longrightarrow> json_hex (hex_char d) = Some d"
  by (auto simp: json_hex_def hex_char_def Let_def)

lemma json_body_close [simp]: "json_body (dquote # s) = Some ([], s)"
  by (simp add: json_body.simps)

lemma json_body_simple:
  "simple_escape e = Some x \<Longrightarrow> e \<noteq> CHR ''u'' \<Longrightarrow>
   json_body (bslash # e # s) = map_option (\<lambda>(v, t). (x # v, t)) (json_body s)"
  by (simp add: json_body.simps)

lemma json_body_unicode:
  "hex4 (a # b # c # d # s) = Some (rr, s) \<Longrightarrow> \<not> is_surrogate rr \<Longrightarrow>
   json_body (bslash # CHR ''u'' # a # b # c # d # s)
     = map_option (\<lambda>(v, t). (encode_rune rr @ v, t)) (json_body s)"
  by (simp add: json_body.simps unicode_escape_def)

lemma encode_rune_ascii: "r < 0x80 \<Longrightarrow> encode_rune r = [chr r]"
  by (simp add: encode_rune_def is_scalar_def)

lemma json_body_ascii:
  assumes "byte c < 0x80"
  shows "json_body (quote_ascii c @ s) = map_option (\<lambda>(v, t). (c # v, t)) (json_body s)"
proof -
  have esc: "json_body (bslash # CHR ''u'' # CHR ''0'' # CHR ''0'' # hex_char (byte c div 16)
      # hex_char (byte c mod 16) # s) = map_option (\<lambda>(v, t). (c # v, t)) (json_body s)"
    by (subst json_body_unicode [where rr = "byte c"])
      (use assms in \<open>auto simp: json_hex_def [of "CHR ''0''"] is_surrogate_def encode_rune_ascii\<close>)
  have plain: "json_body (c # s) = map_option (\<lambda>(v, t). (c # v, t)) (json_body s)"
    if "c \<noteq> bslash" "c \<noteq> dquote" "\<not> byte c < 0x20"
    using that assms by (simp add: json_body.simps decode_rune_def encode_rune_ascii)
  have ctl: "c = chr n" if "byte c = n" for n using that by auto
  show ?thesis
    using esc plain
    by (auto simp: quote_ascii_def Let_def json_body_simple simple_escape_def dest!: ctl)
qed

text \<open>A decoded sequence decodes the same in front of any other text.\<close>

lemma decode_rune_take:
  assumes "decode_rune s = (r, n)" "s \<noteq> []" "0x80 \<le> r" "\<not> (r = rune_error \<and> n = 1)"
  shows "decode_rune (take n s @ t) = (r, n) \<and> (\<exists>c cs. take n s = c # cs \<and> 0x80 \<le> byte c)"
proof -
  obtain c0 s1 where s: "s = c0 # s1" using assms(2) by (cases s) auto
  with assms have c0: "\<not> byte c0 < 0x80" and d: "decode_tail (byte c0) s1 = (r, n)"
    by (auto simp: decode_rune_def split: if_splits)
  from d assms(4) show ?thesis
    by (cases rule: decode_tail_cases) (use s c0 in \<open>simp_all add: decode_rune_def decode_tail_def\<close>)
qed

lemma json_body_chunk:
  assumes "decode_rune s = (r, n)" "s \<noteq> []"
  shows "json_body (quote_chunk (r, take n s) @ t)
    = map_option (\<lambda>(v, u). (encode_rune r @ v, u)) (json_body t)"
proof -
  have n: "1 \<le> n" "n \<le> length s" using decode_rune_width [of s] assms by auto
  consider "r < 0x80" | "r = rune_error" "n = 1" | "r = 0x2028 \<or> r = 0x2029"
    | "0x80 \<le> r" "\<not> (r = rune_error \<and> n = 1)" "\<not> (r = 0x2028 \<or> r = 0x2029)" by linarith
  then show ?thesis
  proof cases
    case 1
    then show ?thesis using json_body_ascii [of "chr r" t] by (simp add: encode_rune_ascii)
  next
    case 2
    have "json_body (bslash # ''ufffd'' @ t)
        = map_option (\<lambda>(v, u). (encode_rune rune_error @ v, u)) (json_body t)"
      using json_body_unicode [of "CHR ''f''" "CHR ''f''" "CHR ''f''" "CHR ''d''" t rune_error]
      by (simp add: json_hex_def is_surrogate_def rune_error_def)
    with 2 n show ?thesis by (simp add: rune_error_def)
  next
    case 3
    have "json_body (bslash # ''u202'' @ hex_char (r mod 16) # t)
        = map_option (\<lambda>(v, u). (encode_rune r @ v, u)) (json_body t)"
      using 3 json_body_unicode [of "CHR ''2''" "CHR ''0''" "CHR ''2''" "hex_char (r mod 16)" t r]
      by (auto simp: json_hex_def [of "CHR ''2''"] json_hex_def [of "CHR ''0''"] is_surrogate_def)
    with 3 show ?thesis by (auto simp: rune_error_def)
  next
    case 4
    from decode_rune_take [OF assms 4(1,2), of t] obtain c cs where
      d: "decode_rune (take n s @ t) = (r, n)" and c: "take n s = c # cs" "0x80 \<le> byte c"
      by blast
    have "c \<noteq> dquote" "c \<noteq> bslash" "\<not> byte c < 0x20" using c(2) by auto
    moreover have "drop n (take n s @ t) = t" using n by simp
    ultimately have "json_body (take n s @ t)
        = map_option (\<lambda>(v, u). (encode_rune r @ v, u)) (json_body t)"
      using d c by (simp add: json_body.simps)
    moreover have "quote_chunk (r, take n s) = take n s" using 4 n by auto
    ultimately show ?thesis by (simp only:)
  qed
qed

lemma json_body_quote:
  "json_body (concat (map quote_chunk (rune_chunks s)) @ dquote # rest)
     = Some (string_of_runes (runes s), rest)"
proof (induction s rule: rune_chunks.induct)
  case (1 s)
  show ?case
  proof (cases "s = []")
    case True
    then show ?thesis by (simp add: runes_def string_of_runes_def)
  next
    case False
    obtain r n where d: "decode_rune s = (r, n)" by fastforce
    from 1 [OF False d [symmetric] refl] False d show ?thesis
      by (simp add: rune_chunks.simps [of s] runes_def string_of_runes_def json_body_chunk
          del: quote_chunk.simps)
  qed
qed

theorem unmarshal_quote: "unmarshal_string (json_quote s) = Some (string_of_runes (runes s))"
  using json_body_quote [of s "[]"]
  by (simp add: unmarshal_string_def json_quote_def json_space_def)

corollary unmarshal_quote_valid: "valid_utf8 s \<Longrightarrow> unmarshal_string (json_quote s) = Some s"
  by (simp add: unmarshal_quote valid_utf8_def)

end
