(* ===== verification/Sha256.thy ===== *)
theory Sha256
  imports Prelude
begin

unbundle bit_operations_syntax

text \<open>
  SHA-256 (FIPS 180-4) and HMAC (RFC 2104) on byte strings, the behaviour of Go's
  \<open>crypto/sha256\<close> and \<open>crypto/hmac\<close> that \<open>signCookie\<close> relies on.  Words are
  \<open>32 word\<close>, additions wrap.  The fact the rest of the development uses is the digest's
  length; the functions are executable, so a signature can be computed for a concrete
  session id and secret.
\<close>

type_synonym w32 = "32 word"
type_synonym hash_state = "w32 \<times> w32 \<times> w32 \<times> w32 \<times> w32 \<times> w32 \<times> w32 \<times> w32"

definition rotr32 :: "nat \<Rightarrow> w32 \<Rightarrow> w32" where
  "rotr32 n x = drop_bit n x OR push_bit (32 - n) x"

text \<open>The round constants and the initial state of FIPS 180-4: the first 32 bits of the fractional parts
  of the cube roots of the first 64 primes and of the square roots of the first eight.\<close>

definition sha_k :: "w32 list" where
  "sha_k =
    [1116352408, 1899447441, 3049323471, 3921009573, 961987163, 1508970993, 2453635748, 2870763221,
     3624381080, 310598401, 607225278, 1426881987, 1925078388, 2162078206, 2614888103, 3248222580,
     3835390401, 4022224774, 264347078, 604807628, 770255983, 1249150122, 1555081692, 1996064986,
     2554220882, 2821834349, 2952996808, 3210313671, 3336571891, 3584528711, 113926993, 338241895,
     666307205, 773529912, 1294757372, 1396182291, 1695183700, 1986661051, 2177026350, 2456956037,
     2730485921, 2820302411, 3259730800, 3345764771, 3516065817, 3600352804, 4094571909, 275423344,
     430227734, 506948616, 659060556, 883997877, 958139571, 1322822218, 1537002063, 1747873779,
     1955562222, 2024104815, 2227730452, 2361852424, 2428436474, 2756734187, 3204031479, 3329325298]"

definition sha_iv :: hash_state where
  "sha_iv = (1779033703, 3144134277, 1013904242, 2773480762, 1359893119, 2600822924, 528734635, 1541459225)"

text \<open>The message schedule, most recent word first: each new word is made from the words
  2, 7, 15 and 16 places back.\<close>

definition schedule_step :: "w32 list \<Rightarrow> nat \<Rightarrow> w32 list" where
  "schedule_step ws t =
     (let s0 = rotr32 7 (ws ! 14) XOR rotr32 18 (ws ! 14) XOR drop_bit 3 (ws ! 14);
          s1 = rotr32 17 (ws ! 1) XOR rotr32 19 (ws ! 1) XOR drop_bit 10 (ws ! 1)
      in (ws ! 15 + s0 + ws ! 6 + s1) # ws)"

definition schedule :: "w32 list \<Rightarrow> w32 list" where
  "schedule block = rev (foldl schedule_step (rev block) [16..<64])"

fun sha_round :: "hash_state \<Rightarrow> w32 \<times> w32 \<Rightarrow> hash_state" where
  "sha_round (a, b, c, d, e, f, g, h) (k, w) =
     (let s1 = rotr32 6 e XOR rotr32 11 e XOR rotr32 25 e;
          ch = (e AND f) XOR (NOT e AND g);
          t1 = h + s1 + ch + k + w;
          s0 = rotr32 2 a XOR rotr32 13 a XOR rotr32 22 a;
          maj = (a AND b) XOR (a AND c) XOR (b AND c);
          t2 = s0 + maj
      in (t1 + t2, a, b, c, d + t1, e, f, g))"

fun state_add :: "hash_state \<Rightarrow> hash_state \<Rightarrow> hash_state" where
  "state_add (a, b, c, d, e, f, g, h) (a', b', c', d', e', f', g', h') =
     (a + a', b + b', c + c', d + d', e + e', f + f', g + g', h + h')"

definition compress :: "hash_state \<Rightarrow> w32 list \<Rightarrow> hash_state" where
  "compress h block = state_add h (foldl sha_round h (zip sha_k (schedule block)))"

text \<open>Big-endian conversions between bytes and words.\<close>

fun be_words :: "string \<Rightarrow> w32 list" where
  "be_words (a # b # c # d # rest) =
     word_of_nat (byte a * 16777216 + byte b * 65536 + byte c * 256 + byte d) # be_words rest"
| "be_words _ = []"

definition be_bytes32 :: "nat \<Rightarrow> string" where
  "be_bytes32 n = [chr (n div 16777216), chr (n div 65536), chr (n div 256), chr n]"

fun state_bytes :: "hash_state \<Rightarrow> string" where
  "state_bytes (a, b, c, d, e, f, g, h) =
     concat (map (\<lambda>w. be_bytes32 (unat w)) [a, b, c, d, e, f, g, h])"

text \<open>Padding: the bit 1, zeros up to 56 modulo 64 bytes, the bit length in 8 bytes.\<close>

definition sha_pad :: "string \<Rightarrow> string" where
  "sha_pad m = (let bits = 8 * length m in
     m @ chr 0x80 # replicate ((119 - length m mod 64) mod 64) (chr 0)
     @ be_bytes32 (bits div 4294967296) @ be_bytes32 bits)"

fun blocks64 :: "string \<Rightarrow> string list" where
  "blocks64 s = (if length s < 64 then [] else take 64 s # blocks64 (drop 64 s))"

declare blocks64.simps [simp del]

definition sha256 :: "string \<Rightarrow> string" where
  "sha256 m = state_bytes (foldl (\<lambda>h b. compress h (be_words b)) sha_iv (blocks64 (sha_pad m)))"

definition xor_bytes :: "nat \<Rightarrow> string \<Rightarrow> string" where
  "xor_bytes k s = map (\<lambda>c. chr (byte c XOR k)) s"

definition hmac_key :: "string \<Rightarrow> string" where
  "hmac_key key = (let k = (if length key > 64 then sha256 key else key)
                   in k @ replicate (64 - length k) (chr 0))"

definition hmac_sha256 :: "string \<Rightarrow> string \<Rightarrow> string" where
  "hmac_sha256 key msg =
     sha256 (xor_bytes 0x5c (hmac_key key) @ sha256 (xor_bytes 0x36 (hmac_key key) @ msg))"

lemma length_state_bytes [simp]: "length (state_bytes h) = 32"
  by (cases h rule: state_bytes.cases) (simp add: be_bytes32_def)

lemma length_sha256 [simp]: "length (sha256 m) = 32"
  by (simp add: sha256_def)

lemma length_hmac_sha256 [simp]: "length (hmac_sha256 k m) = 32"
  by (simp add: hmac_sha256_def)

lemma length_hmac_key [simp]: "length (hmac_key k) = 64"
  by (simp add: hmac_key_def Let_def)

text \<open>The padded message is a whole number of blocks, so no message byte is dropped.\<close>

lemma pad_mod_64: "(n + 9 + (119 - n mod 64) mod 64) mod 64 = (0::nat)"
proof -
  define q r where "q = n div 64" and "r = n mod 64"
  have n: "n = 64 * q + r" and r: "r < 64" by (simp_all add: q_def r_def)
  have "(119 - r) mod 64 = (if r \<le> 55 then 55 - r else 119 - r)"
    using r by (simp add: mod_if)
  then have "n + 9 + (119 - r) mod 64 = 64 * (if r \<le> 55 then q + 1 else q + 2)"
    using n r by simp
  then show ?thesis unfolding r_def by simp
qed

lemma sha_pad_blocks: "length (sha_pad m) mod 64 = 0"
proof -
  have "length (sha_pad m) = length m + 9 + (119 - length m mod 64) mod 64"
    by (simp add: sha_pad_def Let_def be_bytes32_def)
  then show ?thesis by (simp only: pad_mod_64)
qed

lemma blocks64_Nil [simp]: "blocks64 [] = []"
  by (simp add: blocks64.simps)

lemma concat_blocks64: "length s mod 64 = 0 \<Longrightarrow> concat (blocks64 s) = s"
proof (induction s rule: blocks64.induct)
  case (1 s)
  show ?case
  proof (cases "length s < 64")
    case True
    with 1 show ?thesis by simp
  next
    case False
    with 1 have "concat (blocks64 (drop 64 s)) = drop 64 s"
      by (simp add: mod_if)
    with False show ?thesis by (simp add: blocks64.simps [of s])
  qed
qed

end
