(* ===== verification/SessionStore.thy ===== *)
theory SessionStore
  imports Ports Samples Rfc3339 Json Sha256
begin

text \<open>
  \<open>internal/adapters/secondary/mariadb/session_store.go\<close>: reading the signing secret at
  start-up, finding and refreshing a session, creating one, and the helpers that make ids,
  signatures and the \<open>session_data\<close> document.  The theory defines the operations in the
  order of the file's helpers first, then proves each helper's format and each operation's
  effect on the \<open>sessions\<close> table, and interprets \<open>session_port\<close> on them.
\<close>

subsection \<open>Helpers\<close>

definition signCookie :: "string \<Rightarrow> string \<Rightarrow> string" where
  "signCookie sessionID secret =
     ''s:'' @ sessionID @ ''.'' @ trim_right CHR ''='' (std_encode (hmac_sha256 secret sessionID))"

definition generateSessionID :: "environment \<Rightarrow> world \<Rightarrow> (go_error + string) \<times> world" where
  "generateSessionID e w =
     (let (r, w1) = rand_read e 24 w in
      case r of Inl err \<Rightarrow> (Inl err, w1) | Inr b \<Rightarrow> (Inr (raw_url_encode b), w1))"

text \<open>\<open>binary.BigEndian.PutUint32\<close> of \<open>uint32(t.Unix())\<close>.\<close>

definition put_uint32 :: "int \<Rightarrow> string" where
  "put_uint32 secs = be_bytes32 (nat (secs mod 2 ^ 32))"

definition generateObjectID :: "environment \<Rightarrow> world \<Rightarrow> (go_error + string) \<times> world" where
  "generateObjectID e w =
     (let (now, w1) = time_now e w; (r, w2) = rand_read e 8 w1 in
      case r of Inl err \<Rightarrow> (Inl err, w2)
      | Inr b \<Rightarrow> (Inr (hex_encode (put_uint32 (unix_secs now) @ b)), w2))"

record ghost_cookie_meta =
  cm_OriginalMaxAge :: go_int
  cm_Expires :: string
  cm_Secure :: bool
  cm_HTTPOnly :: bool
  cm_Path :: string
  cm_SameSite :: string

record ghost_session_data =
  sd_Cookie :: ghost_cookie_meta
  sd_UserID :: string
  sd_Verified :: bool
  sd_Origin :: string
  sd_UserAgent :: string
  sd_IP :: string

definition defaultSessionMaxAgeDays :: go_int where
  "defaultSessionMaxAgeDays = 180"

text \<open>\<open>safeHead\<close> and \<open>safeTail\<close> count runes; on a short string they return it as it is.\<close>

definition safeHead :: "string \<Rightarrow> nat \<Rightarrow> string" where
  "safeHead s n = (let r = runes s in
     if length r \<le> n then s else string_of_runes (take n r))"

definition safeTail :: "string \<Rightarrow> nat \<Rightarrow> string" where
  "safeTail s n = (let r = runes s in
     if length r \<le> n then s else string_of_runes (drop (length r - n) r))"

text \<open>\<open>json.Marshal\<close> of the two structs: the fields in order, under their tags.\<close>

definition json_bool :: "bool \<Rightarrow> string" where
  "json_bool b = (if b then ''true'' else ''false'')"

definition json_field :: "string \<Rightarrow> string \<Rightarrow> string" where
  "json_field name val = json_quote name @ '':'' @ val"

fun json_object :: "(string \<times> string) list \<Rightarrow> string" where
  "json_object [] = ''{}''"
| "json_object ((n, v) # fs) =
     ''{'' @ json_field n v @ concat (map (\<lambda>(n, v). '','' @ json_field n v) fs) @ ''}''"

definition marshal_cookie :: "ghost_cookie_meta \<Rightarrow> string" where
  "marshal_cookie c = json_object
     [(''originalMaxAge'', int_dec (sint (cm_OriginalMaxAge c))),
      (''expires'', json_quote (cm_Expires c)),
      (''secure'', json_bool (cm_Secure c)),
      (''httpOnly'', json_bool (cm_HTTPOnly c)),
      (''path'', json_quote (cm_Path c)),
      (''sameSite'', json_quote (cm_SameSite c))]"

definition marshal_session_data :: "ghost_session_data \<Rightarrow> string" where
  "marshal_session_data d = json_object
     [(''cookie'', marshal_cookie (sd_Cookie d)),
      (''user_id'', json_quote (sd_UserID d)),
      (''verified'', json_bool (sd_Verified d)),
      (''origin'', json_quote (sd_Origin d)),
      (''user_agent'', json_quote (sd_UserAgent d)),
      (''ip'', json_quote (sd_IP d))]"

text \<open>The document \<open>buildSessionData\<close> fills in, for the instant it reads; the two products
  are 64-bit.\<close>

definition session_data_at :: "time \<Rightarrow> string \<Rightarrow> go_int \<Rightarrow> ghost_session_data" where
  "session_data_at now userID maxAgeDays =
     \<lparr>sd_Cookie = \<lparr>cm_OriginalMaxAge = maxAgeDays * 24 * 60 * 60 * 1000,
        cm_Expires = format_rfc3339_nano (time_add now (maxAgeDays * 24 * time_hour)),
        cm_Secure = True, cm_HTTPOnly = True, cm_Path = ''/ghost'', cm_SameSite = ''none''\<rparr>,
      sd_UserID = userID, sd_Verified = True, sd_Origin = [], sd_UserAgent = [], sd_IP = []\<rparr>"

definition buildSessionData :: "environment \<Rightarrow> string \<Rightarrow> go_int \<Rightarrow> world \<Rightarrow> (go_error + string) \<times> world" where
  "buildSessionData e userID maxAgeDays w =
     (let (now, w1) = time_now e w in
      (Inr (marshal_session_data (session_data_at now userID maxAgeDays)), w1))"

subsection \<open>Operations\<close>

record mariadb_store =
  dbHash :: string
  sessionMaxAge :: go_int

text \<open>\<open>SELECT `value` FROM `settings` WHERE `key` = 'admin_session_secret' LIMIT 1\<close>; a
  \<open>NULL\<close> cannot be scanned into a string.\<close>

definition select_secret :: "environment \<Rightarrow> nat \<Rightarrow> database \<Rightarrow> (go_error + string) \<times> database" where
  "select_secret e t d =
     ((case limit_one t (filter (\<lambda>r. text_eq e (st_key r) ''admin_session_secret'') (settings d)) of
         Inl err \<Rightarrow> Inl err
       | Inr row \<Rightarrow> (case st_value row of
           None \<Rightarrow> Inl (ErrorText ''sql: Scan error: converting NULL to string is unsupported'')
         | Some v \<Rightarrow> Inr v)), d)"

text \<open>The secret used for signing: the JSON layer is removed when there is one.\<close>

definition unwrap_secret :: "string \<Rightarrow> string \<times> bool" where
  "unwrap_secret raw = (case unmarshal_string raw of
      Some v \<Rightarrow> if v \<noteq> [] then (v, True) else (raw, False)
    | None \<Rightarrow> (raw, False))"

definition NewSessionStore ::
    "environment \<Rightarrow> logger \<Rightarrow> go_int \<Rightarrow> world \<Rightarrow> (go_error + mariadb_store) \<times> world" where
  "NewSessionStore e lg sessionMaxAgeDays w =
     (let (r, w1) = run_sql e (select_secret e) w in
      case r of
        Inl err \<Rightarrow> (Inl (Wrapped ''mariadb: reading admin_session_secret from settings: '' err ''''), w1)
      | Inr raw \<Rightarrow>
          if raw = [] then (Inl (ErrorText ''mariadb: admin_session_secret setting is empty''), w1)
          else (let (secret, decoded) = unwrap_secret raw;
                    w2 = log_at lg LevelInfo ''admin_session_secret loaded''
                      [(''json_decoded'', ABool decoded),
                       (''raw_len'', AInt (int (length raw))),
                       (''final_len'', AInt (int (length secret))),
                       (''raw_head'', AString (safeHead raw 4)),
                       (''raw_tail'', AString (safeTail raw 4)),
                       (''decoded_head'', AString (safeHead secret 4)),
                       (''decoded_tail'', AString (safeTail secret 4))] w1
                in (Inr \<lparr>dbHash = secret, sessionMaxAge = sessionMaxAgeDays\<rparr>, w2)))"

text \<open>\<open>SELECT \<dots> FROM sessions WHERE user_id = ? AND created_at >= ? ORDER BY created_at DESC
  LIMIT 1\<close>.\<close>

definition newest :: "session_row list \<Rightarrow> session_row list" where
  "newest rows = filter (\<lambda>r. list_all (\<lambda>q. sr_created_at q \<le> sr_created_at r) rows) rows"

definition select_session ::
    "environment \<Rightarrow> string \<Rightarrow> time \<Rightarrow> nat \<Rightarrow> database \<Rightarrow> (go_error + session_row) \<times> database" where
  "select_session e userID cutoff t d =
     (limit_one t (newest (filter (\<lambda>r. text_eq e (sr_user_id r) userID
        \<and> arg_time e cutoff \<le> sr_created_at r) (sessions d))), d)"

text \<open>\<open>UPDATE sessions SET session_data = ?, updated_at = ? WHERE session_id = ?\<close>.\<close>

definition update_session ::
    "environment \<Rightarrow> string \<Rightarrow> time \<Rightarrow> string \<Rightarrow> nat \<Rightarrow> database \<Rightarrow> (go_error + unit) \<times> database" where
  "update_session e data now sid t d =
     (Inr (), d\<lparr>sessions := map (\<lambda>r. if text_eq e (sr_session_id r) sid
        then r\<lparr>sr_session_data := data, sr_updated_at := col_time e now\<rparr> else r) (sessions d)\<rparr>)"

text \<open>\<open>INSERT INTO sessions (id, session_id, user_id, session_data, created_at, updated_at)
  VALUES (?, ?, ?, ?, ?, ?)\<close>.\<close>

definition insert_session ::
    "environment \<Rightarrow> string \<Rightarrow> string \<Rightarrow> string \<Rightarrow> string \<Rightarrow> time \<Rightarrow> nat \<Rightarrow> database \<Rightarrow> (go_error + unit) \<times> database" where
  "insert_session e oid sid userID data now t d =
     (Inr (), d\<lparr>sessions := sessions d @ [\<lparr>sr_id = oid, sr_session_id = sid, sr_user_id = userID,
        sr_session_data = data, sr_created_at = col_time e now, sr_updated_at = col_time e now\<rparr>]\<rparr>)"

definition find_by_user_id ::
    "environment \<Rightarrow> mariadb_store \<Rightarrow> string \<Rightarrow> world \<Rightarrow> (go_error + session option) \<times> world" where
  "find_by_user_id e s userID w =
     (let (now0, w1) = time_now e w;
          cutoff = add_days now0 (sint (- sessionMaxAge s));
          (r, w2) = run_sql e (select_session e userID cutoff) w1
      in case r of
           Inl err \<Rightarrow>
             if errors_is err SqlErrNoRows then (Inr None, w2)
             else (Inl (Wrapped ''mariadb: querying sessions: '' err ''''), w2)
         | Inr row \<Rightarrow>
             (let (r2, w3) = buildSessionData e userID (sessionMaxAge s) w2 in
              case r2 of
                Inl err \<Rightarrow> (Inl (Wrapped ''mariadb: refreshing session_data: '' err ''''), w3)
              | Inr sessionData \<Rightarrow>
                  (let (now, w4) = time_now e w3;
                       (r3, w5) = run_sql e (update_session e sessionData now (sr_session_id row)) w4
                   in case r3 of
                        Inl err \<Rightarrow> (Inl (Wrapped ''mariadb: updating session_data: '' err ''''), w5)
                      | Inr _ \<Rightarrow>
                          (Inr (Some \<lparr>s_SessionID = sr_session_id row,
                             s_SignedCookieValue = signCookie (sr_session_id row) (dbHash s),
                             s_UserID = sr_user_id row, s_CreatedAt = sr_created_at row\<rparr>), w5))))"

definition create_session ::
    "environment \<Rightarrow> mariadb_store \<Rightarrow> string \<Rightarrow> world \<Rightarrow> (go_error + session) \<times> world" where
  "create_session e s userID w =
     (let (r1, w1) = generateSessionID e w in
      case r1 of
        Inl err \<Rightarrow> (Inl (Wrapped ''mariadb: generating session ID: '' err ''''), w1)
      | Inr sessionID \<Rightarrow>
          (let (r2, w2) = generateObjectID e w1 in
           case r2 of
             Inl err \<Rightarrow> (Inl (Wrapped ''mariadb: generating object ID: '' err ''''), w2)
           | Inr objectID \<Rightarrow>
               (let (r3, w3) = buildSessionData e userID (sessionMaxAge s) w2 in
                case r3 of
                  Inl err \<Rightarrow> (Inl (Wrapped ''mariadb: building session_data: '' err ''''), w3)
                | Inr sessionData \<Rightarrow>
                    (let (now, w4) = time_now e w3;
                         (r4, w5) = run_sql e (insert_session e objectID sessionID userID sessionData now) w4
                     in case r4 of
                          Inl err \<Rightarrow> (Inl (Wrapped ''mariadb: inserting session: '' err ''''), w5)
                        | Inr _ \<Rightarrow>
                            (Inr \<lparr>s_SessionID = sessionID,
                               s_SignedCookieValue = signCookie sessionID (dbHash s),
                               s_UserID = userID, s_CreatedAt = now\<rparr>, w5)))))"

definition mariadb_session_store :: "environment \<Rightarrow> mariadb_store \<Rightarrow> session_store" where
  "mariadb_session_store e s = \<lparr>FindByUserID = find_by_user_id e s, Create = create_session e s\<rparr>"

subsection \<open>Signatures\<close>

definition cookie_sig :: "string \<Rightarrow> string \<Rightarrow> string" where
  "cookie_sig sessionID secret = base64_encode std_char False (hmac_sha256 secret sessionID)"

lemma signCookie_eq: "signCookie i k = ''s:'' @ i @ CHR ''.'' # cookie_sig i k"
  by (simp add: signCookie_def cookie_sig_def trim_std_encode)

lemma length_cookie_sig [simp]: "length (cookie_sig i k) = 43"
  by (simp add: cookie_sig_def length_base64_raw)

lemma cookie_sig_set: "c \<in> set (cookie_sig i k) \<Longrightarrow> is_alnum c \<or> c = CHR ''+'' \<or> c = CHR ''/''"
  by (simp add: cookie_sig_def std_no_pad_set)

lemma cookie_sig_no_dot: "CHR ''.'' \<notin> set (cookie_sig i k)"
  using cookie_sig_set [of "CHR ''.''" i k] by (auto simp: is_alnum_def)

lemma signCookie_nonempty [simp]: "signCookie i k \<noteq> []"
  by (simp add: signCookie_def)

lemma signCookie_eq_iff:
  "signCookie i k = signCookie j l \<longleftrightarrow> i = j \<and> hmac_sha256 k i = hmac_sha256 l j"
  using cookie_sig_no_dot
  by (auto simp: signCookie_eq split_at_last cookie_sig_def std_raw_inj)

text \<open>What the signed form is for: a reader splits at the last dot, signs the id again and
  compares.\<close>

definition unsign_spec :: "string \<Rightarrow> string \<Rightarrow> string option" where
  "unsign_spec secret c =
     (let i = rev (drop 1 (dropWhile (\<lambda>x. x \<noteq> CHR ''.'') (rev (drop 2 c))))
      in if signCookie i secret = c then Some i else None)"

lemma unsign_signCookie: "unsign_spec k (signCookie i k) = Some i"
proof -
  have "CHR ''.'' \<notin> set (rev (cookie_sig i k))" using cookie_sig_no_dot by simp
  then have "dropWhile (\<lambda>x. x \<noteq> CHR ''.'') (rev (i @ CHR ''.'' # cookie_sig i k)) = CHR ''.'' # rev i"
    by simp
  then show ?thesis by (simp add: unsign_spec_def signCookie_eq)
qed

lemma unsign_only: "unsign_spec k c = Some i \<longleftrightarrow> c = signCookie i k"
proof
  show "unsign_spec k c = Some i \<Longrightarrow> c = signCookie i k"
    by (auto simp: unsign_spec_def Let_def split: if_splits)
qed (simp add: unsign_signCookie)

subsection \<open>Generated ids\<close>

definition url_safe :: "char \<Rightarrow> bool" where
  "url_safe c \<longleftrightarrow> is_alnum c \<or> c = CHR ''-'' \<or> c = CHR ''_''"

lemma generateSessionID_cases:
  obtains "entropy e (rand_calls w) = None" "\<exists>m. fst (generateSessionID e w) = Inl (ErrorText m)"
  | b where "length b = 24" "fst (rand_read e 24 w) = Inr b"
      "fst (generateSessionID e w) = Inr (raw_url_encode b)"
proof (cases "entropy e (rand_calls w)")
  case None
  then show thesis by (intro that(1)) (simp_all add: generateSessionID_def rand_read_def)
next
  case (Some f)
  then show thesis
    by (intro that(2) [of "map f [0..<24]"]) (simp_all add: generateSessionID_def rand_read_def)
qed

lemma generateSessionID_frame [simp, frame_simps]:
  "snd (generateSessionID e w) = w\<lparr>rand_calls := Suc (rand_calls w)\<rparr>"
  by (simp add: generateSessionID_def rand_read_def split: option.split sum.split)

lemma session_id_format:
  assumes "fst (generateSessionID e w) = Inr i"
  shows "length i = 32" "list_all url_safe i"
proof -
  obtain b where b: "length b = 24" "i = raw_url_encode b"
    using assms by (cases rule: generateSessionID_cases [of e w]) auto
  then show "length i = 32" by (simp add: length_base64_raw)
  show "list_all url_safe i" using raw_url_set b by (auto simp: list_all_iff url_safe_def)
qed

lemma generateObjectID_frame [simp, frame_simps]:
  "snd (generateObjectID e w) = w\<lparr>now_calls := Suc (now_calls w), rand_calls := Suc (rand_calls w)\<rparr>"
  by (simp add: generateObjectID_def time_now_def rand_read_def split: option.split sum.split)

lemma generateObjectID_cases:
  obtains "entropy e (rand_calls w) = None" "\<exists>m. fst (generateObjectID e w) = Inl (ErrorText m)"
  | b where "length b = 8" "fst (generateObjectID e w)
      = Inr (hex_encode (put_uint32 (unix_secs (clock e (now_calls w))) @ b))"
proof (cases "entropy e (rand_calls w)")
  case None
  then show thesis
    by (intro that(1)) (simp_all add: generateObjectID_def rand_read_def time_now_def)
next
  case (Some f)
  then show thesis
    by (intro that(2) [of "map f [0..<8]"]) (simp_all add: generateObjectID_def rand_read_def time_now_def)
qed

lemma object_id_length: "fst (generateObjectID e w) = Inr i \<Longrightarrow> length i = 24"
  by (cases rule: generateObjectID_cases [of e w]) (auto simp: put_uint32_def be_bytes32_def)

text \<open>The timestamp is the first eight hexadecimal digits.\<close>

definition be_value :: "string \<Rightarrow> int" where
  "be_value s = foldl (\<lambda>a c. 256 * a + int (byte c)) 0 s"

lemma be_value_put_uint32: "be_value (put_uint32 n) = n mod 2 ^ 32"
proof -
  define m where "m = nat (n mod 2 ^ 32)"
  have m: "m < 4294967296" by (simp add: m_def nat_less_iff)
  have top: "m div 16777216 < 256" using m by simp
  moreover have "m div 16777216 = m div 65536 div 256" "m div 65536 = m div 256 div 256"
    by (simp_all add: div_mult2_eq [symmetric])
  ultimately have "256 * (256 * (256 * (m div 16777216 mod 256) + m div 65536 mod 256) + m div 256 mod 256)
      + m mod 256 = m"
    using mult_div_mod_eq [of 256 m] mult_div_mod_eq [of 256 "m div 256"]
      mult_div_mod_eq [of 256 "m div 65536"] by simp
  from arg_cong [OF this, of int] have "be_value (be_bytes32 m) = int m"
    using top by (simp add: be_value_def be_bytes32_def)
  then show ?thesis by (simp add: put_uint32_def m_def)
qed

subsection \<open>Short views of the secret\<close>

lemma safe_long:
  assumes "n < length (runes s)"
  shows "runes (safeHead s n) = take n (runes s)"
    and "runes (safeTail s n) = drop (length (runes s) - n) (runes s)"
proof -
  have "list_all is_scalar (take n (runes s))" "list_all is_scalar (drop (length (runes s) - n) (runes s))"
    using runes_scalar [of s] by (auto simp: list_all_iff dest: in_set_takeD in_set_dropD)
  then show "runes (safeHead s n) = take n (runes s)"
    "runes (safeTail s n) = drop (length (runes s) - n) (runes s)"
    using assms by (simp_all add: safeHead_def safeTail_def Let_def runes_string_of_runes)
qed

subsection \<open>The signing secret\<close>

lemma unwrap_secret_nonempty: "raw \<noteq> [] \<Longrightarrow> fst (unwrap_secret raw) \<noteq> []"
  by (simp add: unwrap_secret_def split: option.split)

lemma unwrap_secret_quoted:
  "valid_utf8 k \<Longrightarrow> k \<noteq> [] \<Longrightarrow> unwrap_secret (json_quote k) = (k, True)"
  by (simp add: unwrap_secret_def unmarshal_quote_valid)

lemma select_secret_reads [simp]: "snd (select_secret e t d) = d"
  by (simp add: select_secret_def)

lemma NewSessionStore_frame [simp, frame_simps]:
  "db (snd (NewSessionStore e lg days w)) = db w"
  "http_sent (snd (NewSessionStore e lg days w)) = http_sent w"
  "sql_calls (snd (NewSessionStore e lg days w)) = Suc (sql_calls w)"
  using run_sql_read_only [of "select_secret e" e w]
  by (simp_all add: NewSessionStore_def Let_def split_def split: sum.split)

lemma NewSessionStore_ok:
  assumes "fst (NewSessionStore e lg days w) = Inr s"
  obtains row raw where "row \<in> set (settings (db w))" "text_eq e (st_key row) ''admin_session_secret''"
    "st_value row = Some raw" "raw \<noteq> []" "s = \<lparr>dbHash = fst (unwrap_secret raw), sessionMaxAge = days\<rparr>"
proof -
  obtain raw where r: "fst (run_sql e (select_secret e) w) = Inr raw" and ne: "raw \<noteq> []"
    and s: "s = \<lparr>dbHash = fst (unwrap_secret raw), sessionMaxAge = days\<rparr>"
    using assms by (auto simp: NewSessionStore_def Let_def split_def split: sum.splits if_splits)
  from run_sql_result(2) [OF r] obtain row where
    l: "limit_one (tie e (sql_calls w)) (filter (\<lambda>r. text_eq e (st_key r) ''admin_session_secret'')
      (settings (db w))) = Inr row" and v: "st_value row = Some raw"
    by (auto simp: select_secret_def split: sum.splits option.splits)
  from l have "row \<in> set (filter (\<lambda>r. text_eq e (st_key r) ''admin_session_secret'') (settings (db w)))"
    by (rule limit_one_in)
  then show thesis using that v ne s by auto
qed

subsection \<open>Looking a session up\<close>

text \<open>The rows a lookup at instant \<open>now\<close> considers, and what it writes into the row it picks.\<close>

definition live_rows :: "environment \<Rightarrow> mariadb_store \<Rightarrow> string \<Rightarrow> time \<Rightarrow> database \<Rightarrow> session_row list" where
  "live_rows e s u now d = filter (\<lambda>r. text_eq e (sr_user_id r) u
     \<and> arg_time e (add_days now (sint (- sessionMaxAge s))) \<le> sr_created_at r) (sessions d)"

definition refreshed :: "environment \<Rightarrow> mariadb_store \<Rightarrow> string \<Rightarrow> nat \<Rightarrow> session_row \<Rightarrow> database \<Rightarrow> database" where
  "refreshed e s u n row d = snd (update_session e
     (marshal_session_data (session_data_at (clock e n) u (sessionMaxAge s))) (clock e (Suc n))
     (sr_session_id row) 0 d)"

definition session_of :: "mariadb_store \<Rightarrow> session_row \<Rightarrow> session" where
  "session_of s row = \<lparr>s_SessionID = sr_session_id row,
     s_SignedCookieValue = signCookie (sr_session_id row) (dbHash s),
     s_UserID = sr_user_id row, s_CreatedAt = sr_created_at row\<rparr>"

lemma newest_subset: "set (newest rows) \<subseteq> set rows"
  by (auto simp: newest_def)

lemma newest_unique:
  assumes "row \<in> set (newest rows)" "x \<in> set rows"
    and "\<And>r. r \<in> set rows \<Longrightarrow> r \<noteq> x \<Longrightarrow> sr_created_at r < sr_created_at x"
  shows "row = x"
  using assms(1,2) assms(3) [of row] by (fastforce simp: newest_def list_all_iff)

lemma newest_nonempty: "rows \<noteq> [] \<Longrightarrow> newest rows \<noteq> []"
proof -
  assume "rows \<noteq> []"
  then have fin: "finite (sr_created_at ` set rows)" "sr_created_at ` set rows \<noteq> {}" by auto
  then have "Max (sr_created_at ` set rows) \<in> sr_created_at ` set rows" by (rule Max_in)
  then obtain r where r: "r \<in> set rows" "sr_created_at r = Max (sr_created_at ` set rows)" by auto
  then have "list_all (\<lambda>q. sr_created_at q \<le> sr_created_at r) rows"
    using fin by (auto simp: list_all_iff)
  with r(1) show ?thesis by (auto simp: newest_def filter_empty_conv)
qed

lemma update_session_tie: "update_session e data now sid t = update_session e data now sid 0"
  by (simp add: update_session_def fun_eq_iff)

lemma select_session_reads [simp]: "snd (select_session e u c t d) = d"
  by (simp add: select_session_def)

text \<open>The world after a lookup that reached the end: two statements, three clock reads.\<close>

abbreviation after_find :: "world \<Rightarrow> database \<Rightarrow> world" where
  "after_find w d \<equiv> w\<lparr>db := d, now_calls := now_calls w + 3, sql_calls := sql_calls w + 2\<rparr>"

lemma find_cases:
  obtains
    (absent) "live_rows e s u (clock e (now_calls w)) (db w) = []" "sql_fault e (sql_calls w) = None"
      "find_by_user_id e s u w
         = (Inr None, w\<lparr>now_calls := Suc (now_calls w), sql_calls := Suc (sql_calls w)\<rparr>)"
  | (found) row where "row \<in> set (newest (live_rows e s u (clock e (now_calls w)) (db w)))"
      "sql_fault e (sql_calls w) = None" "sql_fault e (Suc (sql_calls w)) = None"
      "find_by_user_id e s u w = (Inr (Some (session_of s row)),
         after_find w (refreshed e s u (Suc (now_calls w)) row (db w)))"
  | (select_failed) m where "sql_fault e (sql_calls w) \<noteq> None"
      "fst (find_by_user_id e s u w) = Inl (Wrapped ''mariadb: querying sessions: '' (ErrorText m) '''')"
      "db (snd (find_by_user_id e s u w)) = db w" "logs (snd (find_by_user_id e s u w)) = logs w"
      "sql_calls (snd (find_by_user_id e s u w)) = Suc (sql_calls w)"
  | (update_failed) m row where "row \<in> set (newest (live_rows e s u (clock e (now_calls w)) (db w)))"
      "sql_fault e (Suc (sql_calls w)) \<noteq> None"
      "fst (find_by_user_id e s u w) = Inl (Wrapped ''mariadb: updating session_data: '' (ErrorText m) '''')"
      "db (snd (find_by_user_id e s u w))
         \<in> {db w, refreshed e s u (Suc (now_calls w)) row (db w)}"
      "logs (snd (find_by_user_id e s u w)) = logs w"
      "sql_calls (snd (find_by_user_id e s u w)) = Suc (Suc (sql_calls w))"
proof (cases "sql_fault e (sql_calls w)")
  case (Some f)
  then obtain m a where f: "sql_fault e (sql_calls w) = Some (m, a)" by (cases f) auto
  show thesis
    by (rule select_failed [of m])
      (simp_all add: f find_by_user_id_def time_now_def run_sql_def Let_def split_def)
next
  case None
  note ok1 = this
  let ?live = "live_rows e s u (clock e (now_calls w)) (db w)"
  show thesis
  proof (cases "?live = []")
    case True
    then have "newest ?live = []" by (simp add: newest_def)
    with ok1 True show ?thesis
      by (intro absent) (simp_all add: find_by_user_id_def time_now_def run_sql_def Let_def split_def
          select_session_def live_rows_def limit_one_def)
  next
    case False
    define row where "row = newest ?live ! (tie e (sql_calls w) mod length (newest ?live))"
    from newest_nonempty [OF False] have sel: "limit_one (tie e (sql_calls w)) (newest ?live) = Inr row"
      and row: "row \<in> set (newest ?live)"
      by (simp_all add: limit_one_def row_def)
    note defs = find_by_user_id_def time_now_def run_sql_def Let_def split_def select_session_def
      buildSessionData_def sel [unfolded live_rows_def]
    show ?thesis
    proof (cases "sql_fault e (Suc (sql_calls w))")
      case None
      with ok1 row show ?thesis
        by (intro found [of row]) (simp_all add: defs refreshed_def session_of_def
            update_session_tie [of e _ _ _ "tie e (Suc (sql_calls w))"] update_session_def)
    next
      case (Some f)
      then obtain m a where f: "sql_fault e (Suc (sql_calls w)) = Some (m, a)" by (cases f) auto
      with ok1 row show ?thesis
        by (intro update_failed [of row m]) (simp_all add: defs refreshed_def
            update_session_tie [of e _ _ _ "tie e (Suc (sql_calls w))"])
    qed
  qed
qed

subsection \<open>Creating a session\<close>

definition created_row :: "environment \<Rightarrow> mariadb_store \<Rightarrow> string \<Rightarrow> world \<Rightarrow> string \<Rightarrow> string \<Rightarrow> session_row" where
  "created_row e s u w oid sid =
     \<lparr>sr_id = oid, sr_session_id = sid, sr_user_id = u,
      sr_session_data = marshal_session_data (session_data_at (clock e (now_calls w + 1)) u (sessionMaxAge s)),
      sr_created_at = col_time e (clock e (now_calls w + 2)),
      sr_updated_at = col_time e (clock e (now_calls w + 2))\<rparr>"

definition created_session :: "environment \<Rightarrow> mariadb_store \<Rightarrow> string \<Rightarrow> world \<Rightarrow> string \<Rightarrow> session" where
  "created_session e s u w sid =
     \<lparr>s_SessionID = sid, s_SignedCookieValue = signCookie sid (dbHash s), s_UserID = u,
      s_CreatedAt = clock e (now_calls w + 2)\<rparr>"

lemma create_cases:
  obtains
    (created) sid oid where "fst (generateSessionID e w) = Inr sid"
      "fst (generateObjectID e (snd (generateSessionID e w))) = Inr oid"
      "sql_fault e (sql_calls w) = None"
      "create_session e s u w = (Inr (created_session e s u w sid),
         w\<lparr>db := (db w)\<lparr>sessions := sessions (db w) @ [created_row e s u w oid sid]\<rparr>,
           now_calls := now_calls w + 3, rand_calls := rand_calls w + 2, sql_calls := Suc (sql_calls w)\<rparr>)"
  | (no_entropy) m pre where "entropy e (rand_calls w) = None \<or> entropy e (Suc (rand_calls w)) = None"
      "fst (create_session e s u w) = Inl (Wrapped pre (ErrorText m) '''')"
      "db (snd (create_session e s u w)) = db w" "logs (snd (create_session e s u w)) = logs w"
      "\<exists>k. rand_calls w \<le> k \<and> k < rand_calls (snd (create_session e s u w)) \<and> entropy e k = None"
  | (insert_failed) m sid oid where "sql_fault e (sql_calls w) \<noteq> None" "fst (generateSessionID e w) = Inr sid"
      "fst (create_session e s u w) = Inl (Wrapped ''mariadb: inserting session: '' (ErrorText m) '''')"
      "db (snd (create_session e s u w))
         \<in> {db w, (db w)\<lparr>sessions := sessions (db w) @ [created_row e s u w oid sid]\<rparr>}"
      "logs (snd (create_session e s u w)) = logs w"
      "sql_calls (snd (create_session e s u w)) = Suc (sql_calls w)"
proof (cases "entropy e (rand_calls w) = None \<or> entropy e (Suc (rand_calls w)) = None")
  case True
  then show thesis
    by (cases "entropy e (rand_calls w)")
      (auto intro!: no_entropy intro: exI [of _ "rand_calls w"] exI [of _ "Suc (rand_calls w)"] simp: create_session_def
        generateSessionID_def generateObjectID_def rand_read_def time_now_def Let_def)
next
  case False
  then obtain f g where fg: "entropy e (rand_calls w) = Some f" "entropy e (Suc (rand_calls w)) = Some g"
    by auto
  note defs = create_session_def generateSessionID_def generateObjectID_def rand_read_def time_now_def
    run_sql_def Let_def split_def insert_session_def buildSessionData_def created_row_def
    created_session_def fg
  show thesis
  proof (cases "sql_fault e (sql_calls w)")
    case None
    then show ?thesis
      by (intro created [of "raw_url_encode (map f [0..<24])"
            "hex_encode (put_uint32 (unix_secs (clock e (now_calls w))) @ map g [0..<8])"])
        (simp_all add: defs numeral_3_eq_3 numeral_2_eq_2)
  next
    case (Some h)
    then obtain m a where h: "sql_fault e (sql_calls w) = Some (m, a)" by (cases h) auto
    show ?thesis
      by (rule insert_failed [of "raw_url_encode (map f [0..<24])" m
            "hex_encode (put_uint32 (unix_secs (clock e (now_calls w))) @ map g [0..<8])"])
        (simp_all add: defs h)
  qed
qed

subsection \<open>Frames and the contract\<close>

lemma refreshed_ids:
  "map sr_session_id (sessions (refreshed e s u n row d)) = map sr_session_id (sessions d)"
  "map sr_user_id (sessions (refreshed e s u n row d)) = map sr_user_id (sessions d)"
  "map sr_created_at (sessions (refreshed e s u n row d)) = map sr_created_at (sessions d)"
  "users (refreshed e s u n row d) = users d" "settings (refreshed e s u n row d) = settings d"
  by (auto simp: refreshed_def update_session_def)

lemma find_store_frame:
  shows find_by_user_id_ids: "map sr_session_id (sessions (db (snd (find_by_user_id e s u w))))
      = map sr_session_id (sessions (db w))"
    and find_by_user_id_created: "map sr_created_at (sessions (db (snd (find_by_user_id e s u w))))
      = map sr_created_at (sessions (db w))"
    and find_by_user_id_logs: "logs (snd (find_by_user_id e s u w)) = logs w"
  by (cases rule: find_cases [of e s u w]; auto simp: refreshed_ids)+

lemma find_by_user_id_errors:
  "fst (find_by_user_id e s u w) = Inl err \<Longrightarrow> \<exists>p m. err = Wrapped p (ErrorText m) ''''"
  by (cases rule: find_cases [of e s u w]) auto

lemma create_session_errors:
  "fst (create_session e s u w) = Inl err \<Longrightarrow> \<exists>p m. err = Wrapped p (ErrorText m) ''''"
  by (cases rule: create_cases [of e w s u]) auto

lemma find_error_fault:
  assumes "find_by_user_id e s u w = (Inl err, w')"
  shows "\<exists>k. sql_calls w \<le> k \<and> k < sql_calls w' \<and> sql_fault e k \<noteq> None" "\<not> errors_is err t"
proof -
  show "\<exists>k. sql_calls w \<le> k \<and> k < sql_calls w' \<and> sql_fault e k \<noteq> None"
  proof (cases rule: find_cases [of e s u w])
    case (select_failed m)
    with assms show ?thesis by (intro exI [of _ "sql_calls w"]) simp
  next
    case (update_failed m row)
    with assms show ?thesis by (intro exI [of _ "Suc (sql_calls w)"]) simp
  qed (use assms in simp_all)
  show "\<not> errors_is err t" using find_by_user_id_errors [of e s u w err] assms by auto
qed

lemma find_none_calls:
  assumes "find_by_user_id e s u w = (Inr None, w')"
  shows "sql_calls w' = Suc (sql_calls w)" "rand_calls w' = rand_calls w"
  by (cases rule: find_cases [of e s u w]; use assms in auto)+

lemma create_error_fault:
  assumes "create_session e s u w = (Inl err, w')"
  shows "(\<exists>k. sql_calls w \<le> k \<and> k < sql_calls w' \<and> sql_fault e k \<noteq> None)
    \<or> (\<exists>k. rand_calls w \<le> k \<and> k < rand_calls w' \<and> entropy e k = None)" "\<not> errors_is err t"
proof -
  show "(\<exists>k. sql_calls w \<le> k \<and> k < sql_calls w' \<and> sql_fault e k \<noteq> None)
    \<or> (\<exists>k. rand_calls w \<le> k \<and> k < rand_calls w' \<and> entropy e k = None)"
  proof (cases rule: create_cases [of e w s u])
    case (no_entropy m pre)
    with assms show ?thesis by simp
  next
    case (insert_failed m sid oid)
    with assms show ?thesis by (intro disjI1 exI [of _ "sql_calls w"]) simp
  qed (use assms in simp)
  show "\<not> errors_is err t" using create_session_errors [of e s u w err] assms by auto
qed

lemma create_session_frame:
  "logs (snd (create_session e s u w)) = logs w"
  by (cases rule: create_cases [of e w s u]) auto

text \<open>The row behind a session found, before and after its refresh.\<close>

lemma find_some:
  assumes "find_by_user_id e s u w = (Inr (Some ses), w')"
  obtains row row' where "row \<in> set (sessions (db w))" "row' \<in> set (sessions (db w'))"
    "text_eq e (sr_user_id row) u" "ses = session_of s row"
    "sr_session_id row' = sr_session_id row" "sr_user_id row' = sr_user_id row"
    "sr_created_at row' = sr_created_at row"
proof (cases rule: find_cases [of e s u w])
  case (found row)
  define up :: "session_row \<Rightarrow> session_row" where "up = (\<lambda>r. if text_eq e (sr_session_id r) (sr_session_id row)
    then r\<lparr>sr_session_data := marshal_session_data (session_data_at (clock e (Suc (now_calls w))) u (sessionMaxAge s)),
      sr_updated_at := col_time e (clock e (Suc (Suc (now_calls w))))\<rparr> else r)"
  have up: "sr_session_id (up r) = sr_session_id r" "sr_user_id (up r) = sr_user_id r"
    "sr_created_at (up r) = sr_created_at r" for r by (simp_all add: up_def)
  have "row \<in> set (live_rows e s u (clock e (now_calls w)) (db w))"
    using newest_subset found(1) by (rule subsetD)
  then have row: "row \<in> set (sessions (db w))" "text_eq e (sr_user_id row) u" by (simp_all add: live_rows_def)
  have w': "w' = after_find w (refreshed e s u (Suc (now_calls w)) row (db w))" "ses = session_of s row"
    using found(4) assms by simp_all
  have "sessions (db w') = map up (sessions (db w))"
    by (simp add: w'(1) refreshed_def update_session_def up_def)
  then have "up row \<in> set (sessions (db w'))" using imageI [OF row(1), of up] by simp
  then show thesis by (rule that [OF row(1) _ row(2) w'(2) up])
qed (use assms in auto)

lemma create_some:
  assumes "create_session e s u w = (Inr ses, w')"
  obtains row where "sessions (db w') = sessions (db w) @ [row]" "sr_user_id row = u"
    "sr_session_id row = s_SessionID ses" "s_SignedCookieValue ses = signCookie (s_SessionID ses) (dbHash s)"
    "sr_created_at row = col_time e (s_CreatedAt ses)"
proof (cases rule: create_cases [of e w s u])
  case (created sid oid)
  show thesis
    by (rule that [of "created_row e s u w oid sid"])
      (use created(4) assms in \<open>auto simp: created_row_def created_session_def\<close>)
qed (use assms in auto)

interpretation mariadb_sessions: session_port "mariadb_session_store e s" for e s
proof
  fix u w ses
  show "s_SignedCookieValue ses \<noteq> []" if "fst (FindByUserID (mariadb_session_store e s) u w) = Inr (Some ses)"
    using that by (cases rule: find_cases [of e s u w]) (auto simp: mariadb_session_store_def session_of_def)
  show "s_SignedCookieValue ses \<noteq> []" if "fst (Create (mariadb_session_store e s) u w) = Inr ses"
    using that by (cases rule: create_cases [of e w s u]) (auto simp: mariadb_session_store_def created_session_def)
  show "db (snd (FindByUserID (mariadb_session_store e s) u w)) = db w"
    if "fst (FindByUserID (mariadb_session_store e s) u w) = Inr None"
    using that by (cases rule: find_cases [of e s u w]) (auto simp: mariadb_session_store_def)
  show "map sr_session_id (sessions (db (snd (Create (mariadb_session_store e s) u w))))
      = map sr_session_id (sessions (db w)) @ [s_SessionID ses]"
    if "fst (Create (mariadb_session_store e s) u w) = Inr ses"
    using that by (cases rule: create_cases [of e w s u])
      (auto simp: mariadb_session_store_def created_session_def created_row_def)
qed (auto simp: mariadb_session_store_def find_by_user_id_ids find_by_user_id_logs create_session_frame
  dest!: find_by_user_id_errors create_session_errors)

subsection \<open>Properties\<close>

text \<open>C27 (round trip): the cookie value is \<open>s:\<close>, the session id, a dot and 43 characters of
  unpadded base64; a reader that splits at the last dot and signs the id again accepts a
  value exactly when it is the one \<open>signCookie\<close> makes, and then recovers the session id.\<close>

theorem cookie_authentic:
  "(unsign_spec secret c = Some i \<longleftrightarrow> c = signCookie i secret) \<and>
   (\<exists>sig. signCookie i secret = ''s:'' @ i @ ''.'' @ sig \<and> length sig = 43
      \<and> set sig \<subseteq> {c. is_alnum c \<or> c = CHR ''+'' \<or> c = CHR ''/''}
      \<and> base64_decode sig = hmac_sha256 secret i)"
  using unsign_only [of secret c i] cookie_sig_set [of _ i secret]
  by (auto simp: signCookie_eq cookie_sig_def length_base64_raw intro!: exI [of _ "cookie_sig i secret"])

text \<open>A session id is 32 URL-safe characters that decode to the 24 random bytes
  read for it, so two ids differ when their bytes differ; it fails only without entropy.\<close>

lemma session_id_entropy:
  "case fst (generateSessionID e w) of
     Inl err \<Rightarrow> entropy e (rand_calls w) = None
   | Inr i \<Rightarrow> length i = 32 \<and> list_all url_safe i \<and> fst (rand_read e 24 w) = Inr (base64_decode i)"
proof (cases rule: generateSessionID_cases [of e w])
  case (2 b)
  then show ?thesis using session_id_format [of e w] by auto
qed auto

text \<open>An object id is 24 lower-case hexadecimal digits: 12 bytes of which the
  first four, big-endian, are the Unix time modulo \<open>2^32\<close> and the last eight are random.\<close>

lemma object_id_layout:
  "case fst (generateObjectID e w) of
     Inl err \<Rightarrow> entropy e (rand_calls w) = None
   | Inr i \<Rightarrow> length i = 24 \<and> list_all is_hex_lower i
       \<and> be_value (take 4 (hex_decode i)) = unix_secs (clock e (now_calls w)) mod 2 ^ 32
       \<and> fst (rand_read e 8 w) = Inr (drop 4 (hex_decode i))"
proof (cases rule: generateObjectID_cases [of e w])
  case (2 b)
  have four: "length (put_uint32 n) = 4" for n by (simp add: put_uint32_def be_bytes32_def)
  have "fst (rand_read e 8 w) = Inr b"
    using 2 by (auto simp: generateObjectID_def time_now_def rand_read_def hex_encode_inj split: option.splits)
  with 2 show ?thesis by (simp add: hex_encode_lower four be_value_put_uint32)
qed auto

text \<open>C28 (functional): the ids of a created session.  The session id, which is the credential, is 32 URL-safe
  characters that decode to the 24 bytes read from the random source, so that two ids differ when their
  bytes do.  The row's object id is 24 lower-case hexadecimal digits, 12 bytes of which the first four,
  big-endian, are the Unix time modulo \<open>2^32\<close> and the last eight come from a second reading of the
  random source.\<close>

theorem created_ids:
  assumes "create_session e s u w = (Inr ses, w')"
  shows "\<exists>row f g. sessions (db w') = sessions (db w) @ [row] \<and> sr_session_id row = s_SessionID ses
    \<and> entropy e (rand_calls w) = Some f \<and> entropy e (Suc (rand_calls w)) = Some g
    \<and> length (s_SessionID ses) = 32 \<and> list_all url_safe (s_SessionID ses)
    \<and> base64_decode (s_SessionID ses) = map f [0..<24]
    \<and> length (sr_id row) = 24 \<and> list_all is_hex_lower (sr_id row)
    \<and> be_value (take 4 (hex_decode (sr_id row))) = unix_secs (clock e (now_calls w)) mod 2 ^ 32
    \<and> drop 4 (hex_decode (sr_id row)) = map g [0..<8]"
proof (cases rule: create_cases [of e w s u])
  case (created sid oid)
  from session_id_entropy [of e w] created(1) obtain f where f: "entropy e (rand_calls w) = Some f" "length sid = 32"
    "list_all url_safe sid" "base64_decode sid = map f [0..<24]"
    by (auto simp: rand_read_def split: option.splits)
  from object_id_layout [of e "w\<lparr>rand_calls := Suc (rand_calls w)\<rparr>"] created(2) obtain g where
    g: "entropy e (Suc (rand_calls w)) = Some g" "length oid = 24" "list_all is_hex_lower oid"
    "be_value (take 4 (hex_decode oid)) = unix_secs (clock e (now_calls w)) mod 2 ^ 32" "drop 4 (hex_decode oid) = map g [0..<8]"
    by (auto simp: rand_read_def split: option.splits)
  show ?thesis
    by (intro exI [of _ "created_row e s u w oid sid"] exI [of _ f] exI [of _ g])
      (use created(4) assms f g in \<open>auto simp: created_row_def created_session_def\<close>)
qed (use assms in auto)

lemma created_ids_witness:
  "\<exists>ses w' row. create_session sample_env \<lparr>dbHash = ''k3y'', sessionMaxAge = 180\<rparr> ''1'' sample_world = (Inr ses, w')
     \<and> sessions (db w') = [row] \<and> take 4 (hex_decode (sr_id row)) \<noteq> [] \<and> list_all url_safe (sr_session_id row)
     \<and> base64_decode (sr_session_id row) = map chr [0..<24]"
proof -
  let ?s = "\<lparr>dbHash = ''k3y'', sessionMaxAge = 180\<rparr> :: mariadb_store"
  obtain ses w' where c: "create_session sample_env ?s ''1'' sample_world = (Inr ses, w')"
    by (cases rule: create_cases [of sample_env sample_world ?s "''1''"]) (auto simp: sample_defs)
  have e: "entropy sample_env (rand_calls sample_world) = Some (\<lambda>i. chr (i mod 256))" "sessions (db sample_world) = []"
    by (simp_all add: sample_defs)
  from created_ids [OF c] obtain row where row: "sessions (db w') = [row]" "sr_session_id row = s_SessionID ses"
    "list_all url_safe (s_SessionID ses)" "base64_decode (s_SessionID ses) = map (\<lambda>i. chr (i mod 256)) [0..<24]"
    "length (sr_id row) = 24" "be_value (take 4 (hex_decode (sr_id row))) = unix_secs (clock sample_env (now_calls sample_world)) mod 2 ^ 32"
    by (auto simp: e)
  moreover have "be_value [] \<noteq> unix_secs (clock sample_env (now_calls sample_world)) mod 2 ^ 32"
    by (simp add: be_value_def sample_defs unix_secs_def nanos_per_sec_def)
  ultimately have "take 4 (hex_decode (sr_id row)) \<noteq> []" by metis
  moreover have "map (\<lambda>i. chr (i mod 256)) [0..<24] = map chr [0..<24]" by simp
  ultimately show ?thesis using c row by auto
qed

lemma find_live:
  "case find_by_user_id e s u w of
     (Inr None, w') \<Rightarrow> live_rows e s u (clock e (now_calls w)) (db w) = [] \<and> db w' = db w
   | (Inr (Some ses), w') \<Rightarrow> (\<exists>row \<in> set (live_rows e s u (clock e (now_calls w)) (db w)).
       list_all (\<lambda>q. sr_created_at q \<le> sr_created_at row) (live_rows e s u (clock e (now_calls w)) (db w))
       \<and> ses = session_of s row \<and> db w' = refreshed e s u (Suc (now_calls w)) row (db w))
   | (Inl err, w') \<Rightarrow> (\<exists>pre msg. err = Wrapped pre (ErrorText msg) '''')
       \<and> (\<exists>k \<in> {sql_calls w, Suc (sql_calls w)}. sql_fault e k \<noteq> None)
       \<and> (db w' = db w \<or> (\<exists>row \<in> set (live_rows e s u (clock e (now_calls w)) (db w)).
            db w' = refreshed e s u (Suc (now_calls w)) row (db w)))"
proof (cases rule: find_cases [of e s u w])
  case (found row)
  then show ?thesis by (auto simp: newest_def)
next
  case (select_failed m)
  then show ?thesis by (auto split: prod.splits sum.splits)
next
  case (update_failed m row)
  then show ?thesis using subsetD [OF newest_subset update_failed(1)] by (auto split: prod.splits sum.splits)
qed simp

lemma refreshed_rows:
  "refreshed e s u (Suc (now_calls w)) row d = d\<lparr>sessions := map (\<lambda>r.
      if text_eq e (sr_session_id r) (sr_session_id row)
      then r\<lparr>sr_session_data := marshal_session_data (session_data_at (clock e (now_calls w + 1)) u (sessionMaxAge s)),
        sr_updated_at := col_time e (clock e (now_calls w + 2))\<rparr> else r) (sessions d)\<rparr>"
  by (simp add: refreshed_def update_session_def)

text \<open>C11 (functional): a lookup answers no session exactly when the server works and the user has
  no row young enough, and then writes nothing; it answers a session only from a row of that user
  created after the cutoff, the newest of them, signed with the secret, and rewrites the data and
  the update time of that session id with the current instants, keeping everything else; a
  failure of the driver is reported as such, with the tables as before or as after the refresh.\<close>

theorem find_session_spec:
  "let now = clock e (now_calls w);
       live = filter (\<lambda>r. text_eq e (sr_user_id r) u
         \<and> arg_time e (add_days now (sint (- sessionMaxAge s))) \<le> sr_created_at r) (sessions (db w));
       refresh = (\<lambda>row. (db w)\<lparr>sessions := map (\<lambda>r. if text_eq e (sr_session_id r) (sr_session_id row)
         then r\<lparr>sr_session_data := marshal_session_data (session_data_at (clock e (now_calls w + 1)) u (sessionMaxAge s)),
           sr_updated_at := col_time e (clock e (now_calls w + 2))\<rparr> else r) (sessions (db w))\<rparr>)
   in case find_by_user_id e s u w of
        (Inr None, w') \<Rightarrow> live = [] \<and> db w' = db w
      | (Inr (Some ses), w') \<Rightarrow>
          (\<exists>row \<in> set live. list_all (\<lambda>q. sr_created_at q \<le> sr_created_at row) live
             \<and> ses = \<lparr>s_SessionID = sr_session_id row, s_SignedCookieValue = signCookie (sr_session_id row) (dbHash s),
                 s_UserID = sr_user_id row, s_CreatedAt = sr_created_at row\<rparr>
             \<and> db w' = refresh row)
      | (Inl err, w') \<Rightarrow> (\<exists>pre msg. err = Wrapped pre (ErrorText msg) '''')
          \<and> (\<exists>k \<in> {sql_calls w, Suc (sql_calls w)}. sql_fault e k \<noteq> None)
          \<and> (db w' = db w \<or> (\<exists>row \<in> set live. db w' = refresh row))"
  using find_live [where e = e and s = s and u = u and w = w] unfolding live_rows_def refreshed_rows session_of_def Let_def .

text \<open>C12 (functional): \<open>Create\<close> returns a session only when it has added one row, with that
  session id, the user's id, the data document and the creation instant; when it returns an
  error the tables are as before, or the server reported a failure after it had added the
  row.\<close>

theorem create_session_spec:
  "case create_session e s u w of
     (Inr ses, w') \<Rightarrow> (\<exists>oid. sessions (db w') = sessions (db w) @
         [\<lparr>sr_id = oid, sr_session_id = s_SessionID ses, sr_user_id = u,
           sr_session_data = marshal_session_data (session_data_at (clock e (Suc (now_calls w))) u (sessionMaxAge s)),
           sr_created_at = col_time e (s_CreatedAt ses), sr_updated_at = col_time e (s_CreatedAt ses)\<rparr>]
         \<and> length oid = 24)
       \<and> s_SignedCookieValue ses = signCookie (s_SessionID ses) (dbHash s)
       \<and> length (s_SessionID ses) = 32 \<and> s_UserID ses = u
       \<and> users (db w') = users (db w) \<and> settings (db w') = settings (db w)
   | (Inl err, w') \<Rightarrow> (\<exists>pre msg. err = Wrapped pre (ErrorText msg) '''')
       \<and> (db w' = db w \<or> (sql_fault e (sql_calls w) \<noteq> None
            \<and> butlast (sessions (db w')) = sessions (db w)))"
proof (cases rule: create_cases [of e w s u])
  case (created sid oid)
  then have "length sid = 32" "length oid = 24"
    using session_id_format(1) [of e w sid] object_id_length [of e "snd (generateSessionID e w)" oid] by auto
  with created show ?thesis by (auto simp: created_row_def created_session_def)
next
  case (no_entropy m pre)
  then show ?thesis by (auto split: prod.splits sum.splits)
next
  case (insert_failed m sid oid)
  then show ?thesis by (auto split: prod.splits sum.splits)
qed

text \<open>C16 (round trip): a session just created is the one the next lookup finds, with the same signed cookie,
  when the user's other rows are older, the new row is younger than the cutoff, the two statements of the lookup do not
  fail, and the user id is equal to itself under the collation.\<close>

theorem create_then_find:
  assumes "create_session e s u w = (Inr ses, w1)"
    and "sql_fault e (sql_calls w1) = None" "sql_fault e (Suc (sql_calls w1)) = None" "text_eq e u u"
    and "arg_time e (add_days (clock e (now_calls w1)) (sint (- sessionMaxAge s))) \<le> col_time e (s_CreatedAt ses)"
    and "\<forall>r \<in> set (sessions (db w)). text_eq e (sr_user_id r) u \<longrightarrow> sr_created_at r < col_time e (s_CreatedAt ses)"
  shows "\<exists>found. fst (find_by_user_id e s u w1) = Inr (Some found)
    \<and> s_SessionID found = s_SessionID ses \<and> s_SignedCookieValue found = s_SignedCookieValue ses"
proof -
  obtain sid oid where ses: "ses = created_session e s u w sid"
    and rows: "sessions (db w1) = sessions (db w) @ [created_row e s u w oid sid]"
    using assms(1) by (cases rule: create_cases [of e w s u]) auto
  let ?new = "created_row e s u w oid sid"
  have new: "sr_user_id ?new = u" "sr_created_at ?new = col_time e (s_CreatedAt ses)" "sr_session_id ?new = sid"
    by (simp_all add: created_row_def ses created_session_def)
  let ?live = "live_rows e s u (clock e (now_calls w1)) (db w1)"
  have live: "?new \<in> set ?live"
    using assms(4,5) new by (simp add: live_rows_def rows)
  have best: "row = ?new" if "row \<in> set (newest ?live)" for row
  proof (rule newest_unique [OF that live])
    fix r assume r: "r \<in> set ?live" "r \<noteq> ?new"
    then have "r \<in> set (sessions (db w))" "text_eq e (sr_user_id r) u"
      unfolding live_rows_def rows by (auto split: if_splits)
    with assms(6) show "sr_created_at r < sr_created_at ?new" unfolding new(2) by blast
  qed
  have "fst (find_by_user_id e s u w1) = Inr (Some (session_of s ?new))"
  proof (cases rule: find_cases [of e s u w1])
    case absent
    with live show ?thesis by simp
  next
    case (found row)
    from found(4) best [OF found(1)] show ?thesis by simp
  qed (use assms(2,3) in simp_all)
  then show ?thesis by (simp add: session_of_def new ses created_session_def)
qed

lemma create_then_find_witness:
  "\<exists>ses w1 found. create_session sample_env \<lparr>dbHash = ''k3y'', sessionMaxAge = 180\<rparr> ''1'' session_world = (Inr ses, w1)
     \<and> fst (find_by_user_id sample_env \<lparr>dbHash = ''k3y'', sessionMaxAge = 180\<rparr> ''1'' w1) = Inr (Some found)
     \<and> s_SessionID found = s_SessionID ses \<and> s_SignedCookieValue found = s_SignedCookieValue ses"
proof -
  let ?s = "\<lparr>dbHash = ''k3y'', sessionMaxAge = 180\<rparr> :: mariadb_store"
  obtain sid oid where c: "create_session sample_env ?s ''1'' session_world
      = (Inr (created_session sample_env ?s ''1'' session_world sid),
         session_world\<lparr>db := (db session_world)\<lparr>sessions := sessions (db session_world)
             @ [created_row sample_env ?s ''1'' session_world oid sid]\<rparr>,
           now_calls := now_calls session_world + 3, rand_calls := rand_calls session_world + 2,
           sql_calls := Suc (sql_calls session_world)\<rparr>)"
    by (cases rule: create_cases [of sample_env session_world ?s "''1''"]) (auto simp: sample_defs)
  have "sint (- 180 :: go_int) = -180" by simp
  then have "\<exists>found. fst (find_by_user_id sample_env ?s ''1'' (snd (create_session sample_env ?s ''1'' session_world)))
      = Inr (Some found) \<and> s_SessionID found = sid
      \<and> s_SignedCookieValue found = s_SignedCookieValue (created_session sample_env ?s ''1'' session_world sid)"
    unfolding c snd_conv using create_then_find [OF c]
    by (simp_all add: sample_defs created_session_def add_days_def wrap64_id unix_secs_def nanos_per_sec_def)
  with c show ?thesis by (auto simp: created_session_def)
qed

text \<open>C37 (equivalence): the secret setting works with and without Ghost's JSON quoting: a quoted
  secret is used without the quotes and escapes, and a secret that does not look like JSON is used
  as it is.\<close>

theorem secret_layers:
  assumes "valid_utf8 k" "k \<noteq> []" "hd k \<noteq> dquote" "\<not> json_space (hd k)" "take 4 k \<noteq> ''null''"
  shows "unwrap_secret (json_quote k) = (k, True) \<and> unwrap_secret k = (k, False)"
proof -
  obtain c r where k: "k = c # r" using assms(2) by (cases k) auto
  with assms(3-5) have "unmarshal_string k = None" by (auto simp: unmarshal_string_def)
  with assms(1,2) show ?thesis by (simp add: unwrap_secret_quoted) (simp add: unwrap_secret_def)
qed

lemma secret_layers_witness:
  "unwrap_secret (json_quote ''k3y'') = (''k3y'', True) \<and> unwrap_secret ''k3y'' = (''k3y'', False)"
  by (rule secret_layers) (simp_all add: valid_utf8_ascii json_space_def)

text \<open>C36 (functional): the server starts with the secret of the settings row, never empty, and
  fails when the query fails, when there is no such row, or when the value is \<open>NULL\<close> or empty.\<close>

theorem NewSessionStore_spec:
  "case fst (NewSessionStore e lg days w) of
     Inr s \<Rightarrow> (\<exists>row raw. row \<in> set (settings (db w)) \<and> text_eq e (st_key row) ''admin_session_secret''
         \<and> st_value row = Some raw \<and> raw \<noteq> [] \<and> dbHash s = fst (unwrap_secret raw) \<and> dbHash s \<noteq> []
         \<and> sessionMaxAge s = days)
   | Inl err \<Rightarrow> (\<exists>f. sql_fault e (sql_calls w) = Some f)
       \<or> filter (\<lambda>r. text_eq e (st_key r) ''admin_session_secret'') (settings (db w)) = []
       \<or> (\<exists>row \<in> set (settings (db w)). text_eq e (st_key row) ''admin_session_secret''
            \<and> (st_value row = None \<or> st_value row = Some []))"
proof (cases "fst (NewSessionStore e lg days w)")
  case (Inr s)
  then show ?thesis
    by (cases rule: NewSessionStore_ok [OF Inr]) (auto simp: Inr unwrap_secret_nonempty)
next
  case (Inl err)
  let ?rows = "filter (\<lambda>r. text_eq e (st_key r) ''admin_session_secret'') (settings (db w))"
  show ?thesis
  proof (cases "sql_fault e (sql_calls w) = None")
    case True
    then have "\<exists>x. fst (select_secret e (tie e (sql_calls w)) (db w)) = Inl x
        \<or> fst (select_secret e (tie e (sql_calls w)) (db w)) = Inr []"
      using Inl by (auto simp: NewSessionStore_def Let_def split_def run_sql_ok split: sum.splits if_splits)
    then show ?thesis
      by (cases rule: limit_one_cases [of ?rows "tie e (sql_calls w)"])
        (auto simp: select_secret_def Inl split: option.splits)
  qed (simp add: Inl)
qed

text \<open>C38 (safety): what the start-up record shows of the secret.  A secret of at most eight
  runes can be put together again from \<open>decoded_head\<close> and \<open>decoded_tail\<close>; of a longer one
  the record shows the first and the last four runes.\<close>

theorem secret_in_log:
  assumes "fst (NewSessionStore e LevelInfo days w) = Inr s"
  shows "\<exists>entry h t. logs (snd (NewSessionStore e LevelInfo days w)) = logs w @ [entry]
    \<and> (''decoded_head'', AString h) \<in> set (lg_attrs entry) \<and> (''decoded_tail'', AString t) \<in> set (lg_attrs entry)
    \<and> (if length (runes (dbHash s)) \<le> 8
       then runes (dbHash s) = take (length (runes (dbHash s)) - 4) (runes h) @ runes t
       else runes h = take 4 (runes (dbHash s)) \<and> runes t = drop (length (runes (dbHash s)) - 4) (runes (dbHash s)))"
proof -
  obtain entry where l: "logs (snd (NewSessionStore e LevelInfo days w)) = logs w @ [entry]"
    "(''decoded_head'', AString (safeHead (dbHash s) 4)) \<in> set (lg_attrs entry)"
    "(''decoded_tail'', AString (safeTail (dbHash s) 4)) \<in> set (lg_attrs entry)"
    using assms by (auto simp: NewSessionStore_def Let_def split_def log_at_def split: sum.splits if_splits)
  let ?r = "runes (dbHash s)"
  have "if length ?r \<le> 8 then ?r = take (length ?r - 4) (runes (safeHead (dbHash s) 4)) @ runes (safeTail (dbHash s) 4)
    else runes (safeHead (dbHash s) 4) = take 4 ?r \<and> runes (safeTail (dbHash s) 4) = drop (length ?r - 4) ?r"
  proof (cases "length ?r \<le> 4")
    case True
    then show ?thesis by (simp add: safeHead_def safeTail_def)
  next
    case False
    then show ?thesis by (auto simp: safe_long min_def)
  qed
  with l show ?thesis by blast
qed

lemma secret_in_log_witness:
  "\<exists>entry h t. logs (snd (NewSessionStore sample_env LevelInfo 180 sample_world)) = [entry]
    \<and> (''decoded_head'', AString h) \<in> set (lg_attrs entry) \<and> (''decoded_tail'', AString t) \<in> set (lg_attrs entry)
    \<and> runes ''k3y'' = take (length (runes ''k3y'') - 4) (runes h) @ runes t"
proof -
  have u: "unwrap_secret ''k3y'' = (''k3y'', False)"
    by (simp add: unwrap_secret_def unmarshal_string_def json_space_def)
  have "fst (NewSessionStore sample_env LevelInfo 180 sample_world) = Inr \<lparr>dbHash = ''k3y'', sessionMaxAge = 180\<rparr>"
    by (simp add: NewSessionStore_def run_sql_def select_secret_def limit_one_def Let_def sample_defs u)
  from secret_in_log [OF this] show ?thesis
    by (simp add: valid_utf8_ascii) (simp add: sample_defs)
qed

end
