(* ===== verification/SessionData.thy ===== *)
theory SessionData
  imports SessionStore
begin

text \<open>
  What \<open>buildSessionData\<close> writes into a session row: the lifetime in milliseconds, the expiry
  instant, the escaping of the user id, and how the 64-bit products behave for every value
  \<open>SESSION_MAX_AGE_DAYS\<close> may have.
\<close>

definition day_nanos :: int where
  "day_nanos = 86400 * nanos_per_sec"

text \<open>The product \<open>time.Duration(maxAgeDays) * 24 * time.Hour\<close>, exact and wrapped.\<close>

lemma duration_product: "word_of_int d * 24 * time_hour = (word_of_int (d * day_nanos) :: go_int)"
proof -
  have "(word_of_int d * 24 * time_hour :: go_int) = word_of_int d * word_of_int 24 * word_of_int 3600000000000"
    by (simp add: time_hour_def)
  also have "\<dots> = word_of_int (d * day_nanos)"
    by (simp only: wi_hom_mult) (simp add: day_nanos_def nanos_per_sec_def mult.assoc)
  finally show ?thesis .
qed

lemma millis_product:
  "word_of_int d * 24 * 60 * 60 * 1000 = (word_of_int (d * 86400000) :: go_int)"
proof -
  have "(word_of_int d * 24 * 60 * 60 * 1000 :: go_int)
      = word_of_int d * word_of_int 24 * word_of_int 60 * word_of_int 60 * word_of_int 1000"
    by simp
  also have "\<dots> = word_of_int (d * 86400000)"
    by (simp only: wi_hom_mult) (simp add: mult.assoc)
  finally show ?thesis .
qed

lemma wrap64_high:
  assumes "2 ^ 63 \<le> i" "i < 2 ^ 64"
  shows "wrap64 i = i - 2 ^ 64"
proof -
  have "(word_of_int i :: go_int) = word_of_int (i - 2 ^ 64)"
    by (subst word_of_int_eq_iff) (simp add: take_bit_eq_mod mod_diff_right_eq [symmetric])
  then have "wrap64 i = wrap64 (i - 2 ^ 64)" unfolding wrap64_def by (rule arg_cong)
  also have "\<dots> = i - 2 ^ 64" using assms by (intro wrap64_id) simp_all
  finally show ?thesis .
qed

lemma expiry_add: "time_add now (word_of_int d * 24 * time_hour) = now + wrap64 (d * day_nanos)"
  by (simp add: time_add_def duration_product wrap64_def)

lemma expiry_exact: "0 \<le> d \<Longrightarrow> d \<le> 106751 \<Longrightarrow> wrap64 (d * day_nanos) = d * day_nanos"
  by (intro wrap64_id) (simp_all add: day_nanos_def nanos_per_sec_def)

lemma expiry_wrapped: "106752 \<le> d \<Longrightarrow> d \<le> 213503 \<Longrightarrow> wrap64 (d * day_nanos) = d * day_nanos - 2 ^ 64"
  by (intro wrap64_high) (simp_all add: day_nanos_def nanos_per_sec_def)

lemma millis_exact:
  "0 \<le> d \<Longrightarrow> d \<le> 106751991167 \<Longrightarrow> sint (word_of_int d * 24 * 60 * 60 * 1000 :: go_int) = d * 86400000"
  unfolding millis_product by (intro sint_small) simp_all
subsection \<open>The document read back\<close>

text \<open>A reader for the JSON documents the store writes: strings, objects and bare words, with
  fuel for the nesting.  It is the specification the encoder is checked against.\<close>

datatype json = JStr string | JWord string | JObj "(string \<times> json) list"

definition word_char :: "char \<Rightarrow> bool" where
  "word_char c \<longleftrightarrow> is_alnum c \<or> c = CHR ''-''"

fun read_value :: "nat \<Rightarrow> string \<Rightarrow> (json \<times> string) option"
and read_members :: "nat \<Rightarrow> string \<Rightarrow> ((string \<times> json) list \<times> string) option" where
  "read_value (Suc n) (c # s) =
     (if c = dquote then map_option (\<lambda>(v, r). (JStr v, r)) (json_body s)
      else if c = CHR ''{'' then map_option (\<lambda>(fs, r). (JObj fs, r)) (read_members n s)
      else if word_char c then Some (JWord (takeWhile word_char (c # s)), dropWhile word_char (c # s))
      else None)"
| "read_members (Suc n) (c # s) =
     (if c \<noteq> dquote then None
      else case json_body s of
        Some (name, CHR '':'' # r) \<Rightarrow>
          (case read_value n r of
             Some (v, CHR '','' # r') \<Rightarrow> map_option (\<lambda>(fs, t). ((name, v) # fs, t)) (read_members n r')
           | Some (v, CHR ''}'' # r') \<Rightarrow> Some ([(name, v)], r')
           | _ \<Rightarrow> None)
      | _ \<Rightarrow> None)"
| "read_value _ _ = None"
| "read_members _ _ = None"

definition read_json :: "string \<Rightarrow> json option" where
  "read_json s = (case read_value (length s) s of Some (v, []) \<Rightarrow> Some v | _ \<Rightarrow> None)"

text \<open>What a text decodes to when it is read as UTF-8.\<close>

abbreviation text_of :: "string \<Rightarrow> string" where
  "text_of s \<equiv> string_of_runes (runes s)"

text \<open>\<open>reads k x v\<close>: with fuel \<open>k\<close> or more the text \<open>x\<close>, before a separator, reads as \<open>v\<close>.\<close>

definition reads :: "nat \<Rightarrow> string \<Rightarrow> json \<Rightarrow> bool" where
  "reads k x v \<longleftrightarrow> (\<forall>n r. k \<le> n \<longrightarrow> (r = [] \<or> \<not> word_char (hd r)) \<longrightarrow> read_value n (x @ r) = Some (v, r))"

lemma reads_quote: "reads 1 (json_quote s) (JStr (text_of s))"
  unfolding reads_def
proof (intro allI impI)
  fix n :: nat and r :: string
  assume "1 \<le> n"
  then obtain m where "n = Suc m" by (cases n) auto
  then show "read_value n (json_quote s @ r) = Some (JStr (text_of s), r)"
    using json_body_quote [of s r] by (simp add: json_quote_def)
qed

lemma reads_word:
  assumes "x \<noteq> []" "list_all word_char x"
  shows "reads 1 x (JWord x)"
  unfolding reads_def
proof (intro allI impI)
  fix n :: nat and r :: string
  assume n: "1 \<le> n" and r: "r = [] \<or> \<not> word_char (hd r)"
  obtain m where m: "n = Suc m" using n by (cases n) auto
  obtain c s where x: "x = c # s" using assms(1) by (cases x) auto
  have w: "takeWhile word_char (x @ r) = x" "dropWhile word_char (x @ r) = r"
    using assms(2) r by (cases r; auto simp: list_all_iff)+
  have "c \<noteq> dquote" "c \<noteq> CHR ''{''" "word_char c"
    using assms(2) by (auto simp: x word_char_def is_alnum_def)
  with w show "read_value n (x @ r) = Some (JWord x, r)" by (simp add: m x)
qed

lemma members_cons:
  assumes "reads k x v" "k \<le> n"
  shows "read_members (Suc n) (json_field name x @ CHR ''}'' # r) = Some ([(text_of name, v)], r)"
    and "read_members (Suc n) (json_field name x @ CHR '','' # r)
      = map_option (\<lambda>(fs, t). ((text_of name, v) # fs, t)) (read_members n r)"
proof -
  have sep: "\<not> word_char CHR '',''" "\<not> word_char CHR ''}''" by (simp_all add: word_char_def is_alnum_def)
  have body: "json_body (concat (map quote_chunk (rune_chunks name)) @ dquote # CHR '':'' # x @ q)
      = Some (text_of name, CHR '':'' # x @ q)" for q
    using json_body_quote [of name "CHR '':'' # x @ q"] by simp
  have rd: "\<not> word_char c \<Longrightarrow> read_value n (x @ c # r) = Some (v, c # r)" for c
    using assms by (simp add: reads_def)
  show "read_members (Suc n) (json_field name x @ CHR ''}'' # r) = Some ([(text_of name, v)], r)"
    "read_members (Suc n) (json_field name x @ CHR '','' # r)
      = map_option (\<lambda>(fs, t). ((text_of name, v) # fs, t)) (read_members n r)"
    using rd [OF sep(1)] rd [OF sep(2)]
    by (simp_all add: json_field_def json_quote_def body)
qed

lemma members_list:
  assumes "list_all (\<lambda>(n, x, v). reads k x v) (f # fs)" "k + length fs < n"
  shows "read_members n ((case f of (m, x, v) \<Rightarrow> json_field m x)
      @ concat (map (\<lambda>(m, x, v). '','' @ json_field m x) fs) @ CHR ''}'' # r)
    = Some (map (\<lambda>(m, x, v). (text_of m, v)) (f # fs), r)"
  using assms
proof (induction fs arbitrary: f n)
  case Nil
  obtain m x v where f: "f = (m, x, v)" by (metis prod_cases3)
  obtain n' where "n = Suc n'" "k \<le> n'" using Nil by (cases n) auto
  with Nil f show ?case by (simp add: members_cons(1))
next
  case (Cons g fs)
  obtain m x v where f: "f = (m, x, v)" by (metis prod_cases3)
  obtain m' x' v' where g: "g = (m', x', v')" by (metis prod_cases3)
  obtain n' where n: "n = Suc n'" "k + length fs < n'" "k \<le> n'" using Cons.prems by (cases n) auto
  from Cons.IH [of g n'] Cons.prems n have "read_members n' (json_field m' x'
      @ concat (map (\<lambda>(m, x, v). '','' @ json_field m x) fs) @ CHR ''}'' # r)
    = Some (map (\<lambda>(m, x, v). (text_of m, v)) (g # fs), r)" by (simp add: g)
  moreover have "reads k x v" using Cons.prems f by simp
  ultimately show ?case by (simp add: f g n members_cons(2))
qed

lemma reads_object:
  assumes "fs \<noteq> []" "list_all (\<lambda>(n, x, v). reads k x v) fs" "k + length fs < l"
  shows "reads l (json_object (map (\<lambda>(n, x, v). (n, x)) fs))
    (JObj (map (\<lambda>(n, x, v). (text_of n, v)) fs))"
  unfolding reads_def
proof (intro allI impI)
  fix n :: nat and r :: string
  assume "l \<le> n"
  with assms(3) have n: "Suc (k + length fs) \<le> n" by simp
  obtain f gs where fs: "fs = f # gs" using assms(1) by (cases fs) auto
  obtain m x v where f: "f = (m, x, v)" by (metis prod_cases3)
  obtain n' where n': "n = Suc n'" "k + length gs < n'" using n fs by (cases n) auto
  have "concat (map (\<lambda>(n, v). '','' @ json_field n v) (map (\<lambda>(n, x, v). (n, x)) gs))
      = concat (map (\<lambda>(m, x, v). '','' @ json_field m x) gs)"
    by (rule arg_cong [of _ _ concat]) (simp add: split_def)
  with members_list [of k f gs n' r] assms(2) n' fs
  show "read_value n (json_object (map (\<lambda>(n, x, v). (n, x)) fs) @ r)
      = Some (JObj (map (\<lambda>(n, x, v). (text_of n, v)) fs), r)"
    by (simp add: f fs n' split_def)
qed

lemma reads_mono: "reads k x v \<Longrightarrow> k \<le> k' \<Longrightarrow> reads k' x v"
  by (auto simp: reads_def)

lemma reads_bool: "reads 1 (json_bool b) (JWord (json_bool b))"
  by (rule reads_word) (auto simp: json_bool_def word_char_def is_alnum_def)

lemma reads_int: "reads 1 (int_dec i) (JWord (int_dec i))"
proof (rule reads_word)
  show "list_all word_char (int_dec i)"
    using int_dec_set [of _ i] by (auto simp: list_all_iff word_char_def is_alnum_def is_digit_def Let_def)
qed simp

text \<open>The value a session document stands for.\<close>

definition cookie_value :: "ghost_cookie_meta \<Rightarrow> json" where
  "cookie_value c = JObj
     [(''originalMaxAge'', JWord (int_dec (sint (cm_OriginalMaxAge c)))),
      (''expires'', JStr (text_of (cm_Expires c))),
      (''secure'', JWord (json_bool (cm_Secure c))),
      (''httpOnly'', JWord (json_bool (cm_HTTPOnly c))),
      (''path'', JStr (text_of (cm_Path c))),
      (''sameSite'', JStr (text_of (cm_SameSite c)))]"

definition session_value :: "ghost_session_data \<Rightarrow> json" where
  "session_value d = JObj
     [(''cookie'', cookie_value (sd_Cookie d)),
      (''user_id'', JStr (text_of (sd_UserID d))),
      (''verified'', JWord (json_bool (sd_Verified d))),
      (''origin'', JStr (text_of (sd_Origin d))),
      (''user_agent'', JStr (text_of (sd_UserAgent d))),
      (''ip'', JStr (text_of (sd_IP d)))]"

lemma text_of_ascii: "list_all (\<lambda>c. byte c < 128) s \<Longrightarrow> text_of s = s"
  using valid_utf8_ascii [of s] by (simp add: valid_utf8_def list_all_iff)

lemma field_names [simp]:
  "text_of ''originalMaxAge'' = ''originalMaxAge''" "text_of ''expires'' = ''expires''"
  "text_of ''secure'' = ''secure''" "text_of ''httpOnly'' = ''httpOnly''" "text_of ''path'' = ''path''"
  "text_of ''sameSite'' = ''sameSite''" "text_of ''cookie'' = ''cookie''"
  "text_of ''user_id'' = ''user_id''" "text_of ''verified'' = ''verified''"
  "text_of ''origin'' = ''origin''" "text_of ''user_agent'' = ''user_agent''" "text_of ''ip'' = ''ip''"
  by (simp_all add: text_of_ascii)

lemma reads_cookie: "reads 8 (marshal_cookie c) (cookie_value c)"
proof -
  let ?fs = "[(''originalMaxAge'', int_dec (sint (cm_OriginalMaxAge c)), JWord (int_dec (sint (cm_OriginalMaxAge c)))),
      (''expires'', json_quote (cm_Expires c), JStr (text_of (cm_Expires c))),
      (''secure'', json_bool (cm_Secure c), JWord (json_bool (cm_Secure c))),
      (''httpOnly'', json_bool (cm_HTTPOnly c), JWord (json_bool (cm_HTTPOnly c))),
      (''path'', json_quote (cm_Path c), JStr (text_of (cm_Path c))),
      (''sameSite'', json_quote (cm_SameSite c), JStr (text_of (cm_SameSite c)))]"
  have "reads 8 (json_object (map (\<lambda>(n, x, v). (n, x)) ?fs))
      (JObj (map (\<lambda>(n, x, v). (text_of n, v)) ?fs))"
    by (rule reads_object [where k = 1], simp, simp only: list.pred_inject prod.case simp_thms reads_quote reads_bool reads_int, simp)
  then show ?thesis by (simp add: marshal_cookie_def cookie_value_def)
qed

lemma reads_session: "reads 15 (marshal_session_data d) (session_value d)"
proof -
  let ?fs = "[(''cookie'', marshal_cookie (sd_Cookie d), cookie_value (sd_Cookie d)),
      (''user_id'', json_quote (sd_UserID d), JStr (text_of (sd_UserID d))),
      (''verified'', json_bool (sd_Verified d), JWord (json_bool (sd_Verified d))),
      (''origin'', json_quote (sd_Origin d), JStr (text_of (sd_Origin d))),
      (''user_agent'', json_quote (sd_UserAgent d), JStr (text_of (sd_UserAgent d))),
      (''ip'', json_quote (sd_IP d), JStr (text_of (sd_IP d)))]"
  have up: "reads 8 (json_quote s) (JStr (text_of s))" "reads 8 (json_bool b) (JWord (json_bool b))" for s b
    by (rule reads_mono [OF reads_quote], simp) (rule reads_mono [OF reads_bool], simp)
  have "reads 15 (json_object (map (\<lambda>(n, x, v). (n, x)) ?fs))
      (JObj (map (\<lambda>(n, x, v). (text_of n, v)) ?fs))"
    by (rule reads_object [where k = 8], simp, simp only: list.pred_inject prod.case simp_thms up reads_cookie, simp)
  then show ?thesis by (simp add: marshal_session_data_def session_value_def)
qed

lemma read_session: "read_json (marshal_session_data d) = Some (session_value d)"
proof -
  have "15 \<le> length (marshal_session_data d)"
    by (simp add: marshal_session_data_def json_field_def json_quote_def)
  with reads_session [of d] have "read_value (length (marshal_session_data d)) (marshal_session_data d @ [])
      = Some (session_value d, [])" unfolding reads_def by blast
  then show ?thesis by (simp add: read_json_def)
qed

subsection \<open>Properties\<close>

lemma digits_ascii: "list_all is_digit s \<Longrightarrow> list_all (\<lambda>c. byte c < 128) s"
  by (auto simp: list_all_iff is_digit_def)

lemma format_ascii: "list_all (\<lambda>c. byte c < 128) (format_rfc3339_nano t)"
proof -
  have p: "list_all (\<lambda>c. byte c < 128) (pad_dec k n)" for k n
    using pad_dec_digits by (intro digits_ascii) (auto simp: list_all_iff)
  then have "list_all (\<lambda>c. byte c < 128) (append_int k i)" for k i
    by (simp add: append_int_def)
  moreover have "list_all (\<lambda>c. byte c < 128) (frac_text n)" for n
    using p [of 9 n] trim_right_set [of "CHR ''0''" "pad_dec 9 n"]
    by (auto simp: frac_text_def Let_def list_all_iff)
  ultimately show ?thesis using p by (simp add: format_rfc3339_nano_def Let_def split: prod.split)
qed

text \<open>C23 (round trip): the document \<open>buildSessionData\<close> writes is well-formed JSON whatever the
  user id contains, and read back it has exactly the fields Ghost expects: the cookie object
  with its lifetime and expiry, secure, HTTP-only, path \<open>/ghost\<close> and \<open>sameSite\<close> none, the
  user id as decoded text, \<open>verified\<close> true and three empty strings.\<close>

theorem session_document:
  "\<exists>text. fst (buildSessionData e u days w) = Inr text \<and>
     read_json text = Some (JObj
       [(''cookie'', JObj
          [(''originalMaxAge'', JWord (int_dec (sint (days * 24 * 60 * 60 * 1000)))),
           (''expires'', JStr (format_rfc3339_nano (time_add (clock e (now_calls w)) (days * 24 * time_hour)))),
           (''secure'', JWord ''true''), (''httpOnly'', JWord ''true''),
           (''path'', JStr ''/ghost''), (''sameSite'', JStr ''none'')]),
        (''user_id'', JStr (string_of_runes (runes u))), (''verified'', JWord ''true''),
        (''origin'', JStr []), (''user_agent'', JStr []), (''ip'', JStr [])])"
proof -
  have [simp]: "text_of (format_rfc3339_nano t) = format_rfc3339_nano t" for t
    by (rule text_of_ascii [OF format_ascii])
  have [simp]: "text_of ''/ghost'' = ''/ghost''" "text_of ''none'' = ''none''" "text_of [] = []"
    by (simp_all add: text_of_ascii)
  show ?thesis
    by (simp add: buildSessionData_def time_now_def read_session session_value_def cookie_value_def
        session_data_at_def json_bool_def)
qed

lemma original_max_age:
  assumes "0 \<le> d" "d \<le> 106751991167"
  shows "sint (cm_OriginalMaxAge (sd_Cookie (session_data_at now u (word_of_int d)))) = d * 86400000"
  by (simp only: session_data_at_def ghost_session_data.select_convs ghost_cookie_meta.select_convs
      millis_exact [OF assms])

text \<open>The two statements of the lifetime in a row: the expiry reads back as the instant that many days
  later, and \<open>originalMaxAge\<close> is the same span.\<close>

lemma session_lifetime:
  assumes "0 \<le> now" "0 \<le> d" "d \<le> 106751" "now + d * day_nanos < 253402300800 * nanos_per_sec"
  shows "read_rfc3339 (cm_Expires (sd_Cookie (session_data_at now u (word_of_int d)))) = now + d * day_nanos
    \<and> sint (cm_OriginalMaxAge (sd_Cookie (session_data_at now u (word_of_int d)))) * 1000000 = d * day_nanos"
proof
  have "0 \<le> now + d * day_nanos" using assms(1,2) by (simp add: day_nanos_def nanos_per_sec_def)
  with assms show "read_rfc3339 (cm_Expires (sd_Cookie (session_data_at now u (word_of_int d)))) = now + d * day_nanos"
    by (simp add: session_data_at_def expiry_add expiry_exact read_format)
  show "sint (cm_OriginalMaxAge (sd_Cookie (session_data_at now u (word_of_int d)))) * 1000000 = d * day_nanos"
    using assms(2,3) by (simp add: original_max_age day_nanos_def nanos_per_sec_def)
qed

end
