(* ===== verification/UserRepository.thy ===== *)
theory UserRepository
  imports Ports
begin

text \<open>
  \<open>internal/adapters/secondary/mariadb/user_repository.go\<close>: the staff lookup by email.
  The table's collation decides which emails are equal, and the server decides which of
  several matching rows \<open>LIMIT 1\<close> returns.
\<close>

text \<open>\<open>SELECT id, email, status FROM users WHERE email = ? LIMIT 1\<close>.\<close>

definition select_user :: "environment \<Rightarrow> string \<Rightarrow> nat \<Rightarrow> database \<Rightarrow> (go_error + user_row) \<times> database" where
  "select_user e email t d = (limit_one t (filter (\<lambda>r. text_eq e (ur_email r) email) (users d)), d)"

definition find_by_email :: "environment \<Rightarrow> string \<Rightarrow> world \<Rightarrow> (go_error + user) \<times> world" where
  "find_by_email e email w =
     (let (r, w1) = run_sql e (select_user e email) w in
      case r of
        Inl err \<Rightarrow>
          if errors_is err SqlErrNoRows then (Inl (Sentinel ErrUserNotFound), w1)
          else (Inl (Wrapped ''mariadb: querying users: '' err ''''), w1)
      | Inr row \<Rightarrow> (Inr \<lparr>u_ID = ur_id row, u_Email = ur_email row, u_Status = ur_status row\<rparr>, w1))"

definition NewUserRepository :: "environment \<Rightarrow> user_repository" where
  "NewUserRepository e = \<lparr>FindByEmail = find_by_email e\<rparr>"

lemma select_user_reads [simp]: "snd (select_user e em t d) = d"
  by (simp add: select_user_def)

lemma find_by_email_frame [simp, frame_simps]:
  "db (snd (find_by_email e em w)) = db w" "logs (snd (find_by_email e em w)) = logs w"
  "http_sent (snd (find_by_email e em w)) = http_sent w"
  "now_calls (snd (find_by_email e em w)) = now_calls w"
  "rand_calls (snd (find_by_email e em w)) = rand_calls w"
  "sql_calls (snd (find_by_email e em w)) = Suc (sql_calls w)"
  using run_sql_read_only [of "select_user e em" e w]
  by (simp_all add: find_by_email_def Let_def split_def split: sum.split)

lemma find_by_email_user:
  assumes "fst (find_by_email e em w) = Inr u"
  shows "\<exists>row \<in> set (users (db w)). text_eq e (ur_email row) em
    \<and> u = \<lparr>u_ID = ur_id row, u_Email = ur_email row, u_Status = ur_status row\<rparr>"
proof -
  obtain row where r: "fst (run_sql e (select_user e em) w) = Inr row"
    and u: "u = \<lparr>u_ID = ur_id row, u_Email = ur_email row, u_Status = ur_status row\<rparr>"
    using assms by (auto simp: find_by_email_def Let_def split_def split: sum.splits if_splits)
  from run_sql_result(2) [OF r] have "limit_one (tie e (sql_calls w))
      (filter (\<lambda>r. text_eq e (ur_email r) em) (users (db w))) = Inr row"
    by (simp add: select_user_def)
  then have "row \<in> set (filter (\<lambda>r. text_eq e (ur_email r) em) (users (db w)))"
    by (rule limit_one_in)
  with u show ?thesis by auto
qed

lemma find_by_email_error:
  assumes "fst (find_by_email e em w) = Inl err"
  shows "(err = Sentinel ErrUserNotFound \<and> (\<forall>row \<in> set (users (db w)). \<not> text_eq e (ur_email row) em))
    \<or> (\<exists>m. err = Wrapped ''mariadb: querying users: '' (ErrorText m) '''' \<and> sql_fault e (sql_calls w) \<noteq> None)"
proof -
  obtain x where x: "fst (run_sql e (select_user e em) w) = Inl x"
    and err: "err = (if errors_is x SqlErrNoRows then Sentinel ErrUserNotFound
       else Wrapped ''mariadb: querying users: '' x '''')"
    using assms by (auto simp: find_by_email_def Let_def split_def split: sum.splits if_splits)
  from run_sql_error [OF x] show ?thesis
  proof (elim disjE exE conjE)
    fix m assume "x = ErrorText m" "sql_fault e (sql_calls w) \<noteq> None"
    with err show ?thesis by simp
  next
    assume "fst (select_user e em (tie e (sql_calls w)) (db w)) = Inl x"
    then have "x = Sentinel SqlErrNoRows \<and> filter (\<lambda>r. text_eq e (ur_email r) em) (users (db w)) = []"
      by (auto simp: select_user_def limit_one_def split: if_splits)
    with err show ?thesis by (simp add: filter_empty_conv)
  qed
qed

interpretation mariadb_users: user_port "NewUserRepository e" for e
proof
  fix em w err
  assume "fst (FindByEmail (NewUserRepository e) em w) = Inl err"
  then have "fst (find_by_email e em w) = Inl err" by (simp add: NewUserRepository_def)
  from find_by_email_error [OF this] show "\<not> errors_is err ErrUnauthorized" by auto
qed (simp_all add: NewUserRepository_def)

subsection \<open>Properties\<close>

text \<open>A lookup reads only, and answers a user only from a row whose email the server
  holds equal to the one asked for; no such row is \<open>ErrUserNotFound\<close>, and any other failure is
  reported as the driver's error and never as an absent or refused user.\<close>

lemma find_by_email_outcome:
  "db (snd (find_by_email e em w)) = db w \<and>
   (case fst (find_by_email e em w) of
      Inr u \<Rightarrow> \<exists>row \<in> set (users (db w)). text_eq e (ur_email row) em \<and> u_ID u = ur_id row
        \<and> u_Email u = ur_email row \<and> u_Status u = ur_status row
    | Inl err \<Rightarrow> if errors_is err ErrUserNotFound
        then filter (\<lambda>row. text_eq e (ur_email row) em) (users (db w)) = []
        else sql_fault e (sql_calls w) \<noteq> None \<and> \<not> errors_is err ErrUnauthorized)"
proof (cases "fst (find_by_email e em w)")
  case (Inl err)
  from find_by_email_error [OF Inl] show ?thesis by (auto simp: Inl filter_empty_conv)
next
  case (Inr u)
  from find_by_email_user [OF Inr] show ?thesis by (auto simp: Inr)
qed

end
