(* ===== verification/AuthService.thy ===== *)
theory AuthService
  imports UserRepository SessionStore
begin

text \<open>
  \<open>internal/core/service/auth_service.go\<close>: the service that turns a verified email into a
  signed Ghost cookie.  \<open>EnsureSession\<close> is stated over the interface values of \<open>Ports\<close>; its
  properties are proved once, in a locale that assumes the two contracts, and then hold for
  the MariaDB adapters by interpretation.
\<close>

definition ghostSessionCookieName :: string where
  "ghostSessionCookieName = ''ghost-admin-api-session''"

record auth_service_impl =
  svc_users :: user_repository
  svc_sessions :: session_store
  svc_logger :: logger

definition New :: "user_repository \<Rightarrow> session_store \<Rightarrow> logger \<Rightarrow> auth_service_impl" where
  "New us ss lg = \<lparr>svc_users = us, svc_sessions = ss, svc_logger = lg\<rparr>"

definition hasGhostSessionCookie :: "string \<Rightarrow> bool" where
  "hasGhostSessionCookie cookieHeader \<longleftrightarrow>
     cookieHeader \<noteq> [] \<and> request_cookie [cookieHeader] ghostSessionCookieName \<noteq> None"

definition EnsureSession :: "auth_service_impl \<Rightarrow> string \<Rightarrow> string \<Rightarrow> world \<Rightarrow> (go_error + string) \<times> world" where
  "EnsureSession s cookieHeader email w =
     (if hasGhostSessionCookie cookieHeader then
        (Inr [], log_at (svc_logger s) LevelDebug ''ghost-admin-api-session cookie present, passing through'' [] w)
      else
        (let w1 = log_at (svc_logger s) LevelInfo ''no ghost session cookie found, verifying staff membership''
               [(''email'', AString email)] w;
             (r, w2) = FindByEmail (svc_users s) email w1
         in case r of
              Inl err \<Rightarrow>
                if errors_is err ErrUserNotFound then (Inl (Wrapped [] (Sentinel ErrUnauthorized) ('': '' @ email)), w2)
                else (Inl (Wrapped ''user repository: '' err []), w2)
            | Inr usr \<Rightarrow>
                if \<not> IsActive usr then (Inl (Wrapped [] (Sentinel ErrUnauthorized) ('': status='' @ u_Status usr)), w2)
                else
                  (let (r2, w3) = FindByUserID (svc_sessions s) (u_ID usr) w2 in
                   case r2 of
                     Inl err \<Rightarrow> (Inl (Wrapped ''session store lookup: '' err []), w3)
                   | Inr (Some existing) \<Rightarrow>
                       (Inr (s_SignedCookieValue existing),
                        log_at (svc_logger s) LevelDebug ''signed cookie for manual browser test''
                          [(''cookie_value'', AString (s_SignedCookieValue existing))]
                        (log_at (svc_logger s) LevelInfo ''reusing existing ghost session''
                          [(''user_id'', AString (u_ID usr))] w3))
                   | Inr None \<Rightarrow>
                       (let (r3, w4) = Create (svc_sessions s) (u_ID usr) w3 in
                        case r3 of
                          Inl err \<Rightarrow> (Inl (Wrapped ''session store create: '' err []), w4)
                        | Inr ses \<Rightarrow>
                            (Inr (s_SignedCookieValue ses),
                             log_at (svc_logger s) LevelDebug ''signed cookie for manual browser test''
                               [(''cookie_value'', AString (s_SignedCookieValue ses))]
                             (log_at (svc_logger s) LevelInfo ''created ghost admin session''
                               [(''user_id'', AString (u_ID usr)), (''email'', AString email)] w4))))))"

definition auth_service_of :: "auth_service_impl \<Rightarrow> auth_service" where
  "auth_service_of s = \<lparr>EnsureSessionOp = EnsureSession s\<rparr>"

text \<open>The world the repository sees: the first log record is already written.\<close>

definition asked :: "auth_service_impl \<Rightarrow> string \<Rightarrow> world \<Rightarrow> world" where
  "asked s email w = log_at (svc_logger s) LevelInfo ''no ghost session cookie found, verifying staff membership''
     [(''email'', AString email)] w"

lemma asked_frame [simp, frame_simps]:
  "db (asked s em w) = db w" "now_calls (asked s em w) = now_calls w" "rand_calls (asked s em w) = rand_calls w"
  "sql_calls (asked s em w) = sql_calls w" "http_sent (asked s em w) = http_sent w"
  by (simp_all add: asked_def)

text \<open>The runs of the service, over any repository and store.\<close>

lemma ensure_cases:
  obtains
    (fast) "hasGhostSessionCookie ck" "fst (EnsureSession s ck em w) = Inr []"
      "snd (EnsureSession s ck em w)
         = log_at (svc_logger s) LevelDebug ''ghost-admin-api-session cookie present, passing through'' [] w"
  | (no_user) err w2 where "\<not> hasGhostSessionCookie ck"
      "FindByEmail (svc_users s) em (asked s em w) = (Inl err, w2)"
      "EnsureSession s ck em w = (Inl (if errors_is err ErrUserNotFound
         then Wrapped [] (Sentinel ErrUnauthorized) ('': '' @ em) else Wrapped ''user repository: '' err []), w2)"
  | (inactive) usr w2 where "\<not> hasGhostSessionCookie ck"
      "FindByEmail (svc_users s) em (asked s em w) = (Inr usr, w2)" "\<not> IsActive usr"
      "EnsureSession s ck em w = (Inl (Wrapped [] (Sentinel ErrUnauthorized) ('': status='' @ u_Status usr)), w2)"
  | (lookup_failed) usr w2 err w3 where "\<not> hasGhostSessionCookie ck"
      "FindByEmail (svc_users s) em (asked s em w) = (Inr usr, w2)" "IsActive usr"
      "FindByUserID (svc_sessions s) (u_ID usr) w2 = (Inl err, w3)"
      "EnsureSession s ck em w = (Inl (Wrapped ''session store lookup: '' err []), w3)"
  | (reused) usr w2 ses w3 where "\<not> hasGhostSessionCookie ck"
      "FindByEmail (svc_users s) em (asked s em w) = (Inr usr, w2)" "IsActive usr"
      "FindByUserID (svc_sessions s) (u_ID usr) w2 = (Inr (Some ses), w3)"
      "EnsureSession s ck em w = (Inr (s_SignedCookieValue ses),
         log_at (svc_logger s) LevelDebug ''signed cookie for manual browser test''
           [(''cookie_value'', AString (s_SignedCookieValue ses))]
         (log_at (svc_logger s) LevelInfo ''reusing existing ghost session'' [(''user_id'', AString (u_ID usr))] w3))"
  | (create_failed) usr w2 w3 err w4 where "\<not> hasGhostSessionCookie ck"
      "FindByEmail (svc_users s) em (asked s em w) = (Inr usr, w2)" "IsActive usr"
      "FindByUserID (svc_sessions s) (u_ID usr) w2 = (Inr None, w3)"
      "Create (svc_sessions s) (u_ID usr) w3 = (Inl err, w4)"
      "EnsureSession s ck em w = (Inl (Wrapped ''session store create: '' err []), w4)"
  | (created) usr w2 w3 ses w4 where "\<not> hasGhostSessionCookie ck"
      "FindByEmail (svc_users s) em (asked s em w) = (Inr usr, w2)" "IsActive usr"
      "FindByUserID (svc_sessions s) (u_ID usr) w2 = (Inr None, w3)"
      "Create (svc_sessions s) (u_ID usr) w3 = (Inr ses, w4)"
      "EnsureSession s ck em w = (Inr (s_SignedCookieValue ses),
         log_at (svc_logger s) LevelDebug ''signed cookie for manual browser test''
           [(''cookie_value'', AString (s_SignedCookieValue ses))]
         (log_at (svc_logger s) LevelInfo ''created ghost admin session''
           [(''user_id'', AString (u_ID usr)), (''email'', AString em)] w4))"
proof (cases "hasGhostSessionCookie ck")
  case True
  then show thesis by (intro fast) (simp_all add: EnsureSession_def)
next
  case slow: False
  obtain r w2 where f: "FindByEmail (svc_users s) em (asked s em w) = (r, w2)" by fastforce
  note defs = EnsureSession_def slow f [unfolded asked_def] Let_def
  show thesis
  proof (cases r)
    case (Inl err)
    with f slow show ?thesis by (intro no_user [of err w2]) (simp_all add: defs)
  next
    case (Inr usr)
    show ?thesis
    proof (cases "IsActive usr")
      case False
      with f slow Inr show ?thesis by (intro inactive [of usr w2]) (simp_all add: defs)
    next
      case active: True
      obtain r2 w3 where g: "FindByUserID (svc_sessions s) (u_ID usr) w2 = (r2, w3)" by fastforce
      show ?thesis
      proof (cases r2)
        case (Inl err)
        with f g slow active \<open>r = Inr usr\<close> show ?thesis
          by (intro lookup_failed [of usr w2 err w3]) (simp_all add: defs)
      next
        case r2: (Inr o')
        show ?thesis
        proof (cases o')
          case (Some ses)
          with f g slow active r2 \<open>r = Inr usr\<close> show ?thesis
            by (intro reused [of usr w2 ses w3]) (simp_all add: defs)
        next
          case None
          obtain r3 w4 where c: "Create (svc_sessions s) (u_ID usr) w3 = (r3, w4)" by fastforce
          with f g slow active r2 None \<open>r = Inr usr\<close> show ?thesis
            by (cases r3)
              (intro create_failed [of usr w2 w3 _ w4] created [of usr w2 w3 _ w4]; simp_all add: defs)+
        qed
      qed
    qed
  qed
qed
lemma New_fields [simp]:
  "svc_users (New us ss lg) = us" "svc_sessions (New us ss lg) = ss" "svc_logger (New us ss lg) = lg"
  by (simp_all add: New_def)

subsection \<open>What the service does with ports that keep their contracts\<close>

locale auth_core = user_port repo + session_port store
  for repo :: user_repository and store :: session_store +
  fixes lg :: logger
begin

lemma empty_iff_fast:
  "fst (EnsureSession (New repo store lg) ck em w) = Inr [] \<longleftrightarrow> hasGhostSessionCookie ck"
proof (cases rule: ensure_cases [of ck "New repo store lg" em w])
  case (reused usr w2 ses w3)
  with find_signed [of "u_ID usr" w2 ses] show ?thesis by simp
next
  case (created usr w2 w3 ses w4)
  with create_signed [of "u_ID usr" w3 ses] show ?thesis by simp
qed simp_all

lemma refused_iff:
  "(\<exists>err. fst (EnsureSession (New repo store lg) ck em w) = Inl err \<and> errors_is err ErrUnauthorized) \<longleftrightarrow>
   \<not> hasGhostSessionCookie ck \<and>
   (case fst (FindByEmail repo em (asked (New repo store lg) em w)) of
      Inl err \<Rightarrow> errors_is err ErrUserNotFound | Inr usr \<Rightarrow> \<not> IsActive usr)"
proof (cases rule: ensure_cases [of ck "New repo store lg" em w])
  case (no_user err w2)
  with find_error [of em "asked (New repo store lg) em w" err] show ?thesis by simp
next
  case (lookup_failed usr w2 err w3)
  with find_store_error [of "u_ID usr" w2 err] show ?thesis by simp
next
  case (create_failed usr w2 w3 err w4)
  with create_error [of "u_ID usr" w3 err] show ?thesis by simp
qed simp_all

lemma no_session_no_write:
  assumes "hasGhostSessionCookie ck \<or>
    (case fst (FindByEmail repo em (asked (New repo store lg) em w)) of Inl err \<Rightarrow> True | Inr usr \<Rightarrow> \<not> IsActive usr)"
  shows "db (snd (EnsureSession (New repo store lg) ck em w)) = db w"
  using assms find_reads [of em "asked (New repo store lg) em w"]
  by (cases rule: ensure_cases [of ck "New repo store lg" em w]) simp_all

lemma success_rows:
  assumes "fst (EnsureSession (New repo store lg) ck em w) = Inr c"
  shows "map sr_session_id (sessions (db (snd (EnsureSession (New repo store lg) ck em w))))
      = map sr_session_id (sessions (db w))
    \<or> (\<exists>sid. map sr_session_id (sessions (db (snd (EnsureSession (New repo store lg) ck em w))))
      = map sr_session_id (sessions (db w)) @ [sid])"
proof (cases rule: ensure_cases [of ck "New repo store lg" em w])
  case (reused usr w2 ses w3)
  with find_reads [of em "asked (New repo store lg) em w"] find_keeps_ids [of "u_ID usr" w2]
  show ?thesis by simp
next
  case (created usr w2 w3 ses w4)
  with find_reads [of em "asked (New repo store lg) em w"] find_none_reads [of "u_ID usr" w2]
    create_adds [of "u_ID usr" w3 ses] show ?thesis by simp
qed (use assms in simp_all)

end

interpretation mariadb_service: auth_core "NewUserRepository e" "mariadb_session_store e s" lg for e s lg
  by unfold_locales

subsection \<open>Properties over the MariaDB adapters\<close>

text \<open>The service as \<open>cmd/main.go\<close> wires it.\<close>

definition mariadb_service :: "environment \<Rightarrow> mariadb_store \<Rightarrow> logger \<Rightarrow> auth_service_impl" where
  "mariadb_service e s lg = New (NewUserRepository e) (mariadb_session_store e s) lg"

lemma mariadb_service_fields [simp]:
  "FindByEmail (svc_users (mariadb_service e s lg)) = find_by_email e"
  "FindByUserID (svc_sessions (mariadb_service e s lg)) = find_by_user_id e s"
  "Create (svc_sessions (mariadb_service e s lg)) = create_session e s"
  "svc_logger (mariadb_service e s lg) = lg"
  by (simp_all add: mariadb_service_def NewUserRepository_def mariadb_session_store_def)

text \<open>The empty answer, which lets the request through, is given exactly when the
  browser's cookies include the Ghost session cookie; then the database, the clock and the
  random source are not consulted at all.\<close>

lemma fast_path:
  "let (r, w') = EnsureSession (mariadb_service e s lg) ck em w in
   if hasGhostSessionCookie ck
   then r = Inr [] \<and> w' = w\<lparr>logs := logs w'\<rparr>
   else r \<noteq> Inr []"
proof -
  have "fst (EnsureSession (mariadb_service e s lg) ck em w) = Inr [] \<longleftrightarrow> hasGhostSessionCookie ck"
    unfolding mariadb_service_def by (rule mariadb_service.empty_iff_fast)
  moreover have "hasGhostSessionCookie ck \<Longrightarrow> snd (EnsureSession (mariadb_service e s lg) ck em w)
      = w\<lparr>logs := logs (snd (EnsureSession (mariadb_service e s lg) ck em w))\<rparr>"
    by (simp add: EnsureSession_def log_at_def)
  ultimately show ?thesis by (simp add: split_def Let_def)
qed

text \<open>A signed cookie is handed out only for an active staff member with the verified email, and
  it is the signature of a session of that user that is in the table.\<close>

lemma cookie_only_for_staff:
  assumes "fst (EnsureSession (mariadb_service e s lg) ck em w) = Inr c" "c \<noteq> []"
  shows "\<exists>usr \<in> set (users (db w)). \<exists>row \<in> set (sessions (db (snd (EnsureSession (mariadb_service e s lg) ck em w)))).
    text_eq e (ur_email usr) em \<and> ur_status usr = ''active''
    \<and> (sr_user_id row = ur_id usr \<or> text_eq e (sr_user_id row) (ur_id usr))
    \<and> c = signCookie (sr_session_id row) (dbHash s)"
proof (cases rule: ensure_cases [of ck "mariadb_service e s lg" em w])
  case (reused usr w2 ses w3)
  then have f: "fst (find_by_email e em (asked (mariadb_service e s lg) em w)) = Inr usr"
    and w2: "db w2 = db w" using find_by_email_frame(1) [of e em "asked (mariadb_service e s lg) em w"] by simp_all
  from find_by_email_user [OF f] reused(3) obtain ur where ur: "ur \<in> set (users (db w))"
    "text_eq e (ur_email ur) em" "ur_status ur = ''active''" "ur_id ur = u_ID usr" by (auto simp: IsActive_def)
  have "find_by_user_id e s (u_ID usr) w2 = (Inr (Some ses), w3)" using reused(4) by simp
  then obtain row row' where "row' \<in> set (sessions (db w3))" "text_eq e (sr_user_id row) (u_ID usr)"
    "ses = session_of s row" "sr_session_id row' = sr_session_id row" "sr_user_id row' = sr_user_id row"
    by (rule find_some)
  with ur reused assms(1) show ?thesis
    by (intro bexI [of _ ur] bexI [of _ row']) (auto simp: session_of_def)
next
  case (created usr w2 w3 ses w4)
  then have f: "fst (find_by_email e em (asked (mariadb_service e s lg) em w)) = Inr usr" by simp
  from find_by_email_user [OF f] created(3) obtain ur where ur: "ur \<in> set (users (db w))"
    "text_eq e (ur_email ur) em" "ur_status ur = ''active''" "ur_id ur = u_ID usr" by (auto simp: IsActive_def)
  have "create_session e s (u_ID usr) w3 = (Inr ses, w4)" using created(5) by simp
  then obtain row where "sessions (db w4) = sessions (db w3) @ [row]" "sr_user_id row = u_ID usr"
    "sr_session_id row = s_SessionID ses" "s_SignedCookieValue ses = signCookie (s_SessionID ses) (dbHash s)"
    by (rule create_some)
  with ur created assms(1) show ?thesis by auto
qed (use assms in simp_all)

lemma no_cookie_nil [simp]: "\<not> hasGhostSessionCookie []"
  by (simp add: hasGhostSessionCookie_def)

text \<open>The sample request of a browser without the cookie, for a user who has a session.\<close>

abbreviation sample_service :: "log_level \<Rightarrow> auth_service_impl" where
  "sample_service lg \<equiv> mariadb_service sample_env \<lparr>dbHash = ''k3y'', sessionMaxAge = 180\<rparr> lg"

lemma sample_live:
  "live_rows sample_env \<lparr>dbHash = k, sessionMaxAge = 180\<rparr> ''1'' start_time (db session_world) = [alice_session]"
  by (simp add: live_rows_def sample_defs add_days_def wrap64_id unix_secs_def nanos_per_sec_def)

lemma sample_find:
  assumes "db w = db session_world" "now_calls w = 0"
  shows "\<exists>d. find_by_user_id sample_env \<lparr>dbHash = k, sessionMaxAge = 180\<rparr> ''1'' w
    = (Inr (Some (session_of \<lparr>dbHash = k, sessionMaxAge = 180\<rparr> alice_session)), after_find w d)"
proof -
  have c: "clock sample_env 0 = start_time" "sql_fault sample_env n = None" for n by (simp_all add: sample_defs)
  show ?thesis
  proof (cases rule: find_cases [of sample_env "\<lparr>dbHash = k, sessionMaxAge = 180\<rparr>" "''1''" w])
    case absent
    then show ?thesis by (simp add: assms c sample_live)
  next
    case (found row)
    then have "row = alice_session" by (simp add: assms c sample_live newest_def)
    with found(4) show ?thesis by blast
  qed (simp_all add: c)
qed

lemma sample_reuse:
  assumes "db w = db session_world" "now_calls w = 0"
  shows "fst (EnsureSession (sample_service lg) [] ''alice@example.com'' w) = Inr (signCookie ''old'' ''k3y'')"
proof -
  let ?w = "asked (sample_service lg) ''alice@example.com'' w"
  have "fst (find_by_email sample_env ''alice@example.com'' ?w)
      = Inr \<lparr>u_ID = ''1'', u_Email = ''alice@example.com'', u_Status = ''active''\<rparr>"
    by (simp add: find_by_email_def run_sql_def select_user_def limit_one_def assms Let_def) (simp add: sample_defs)
  moreover define w2 where "w2 = snd (find_by_email sample_env ''alice@example.com'' ?w)"
  ultimately have "find_by_email sample_env ''alice@example.com'' ?w
      = (Inr \<lparr>u_ID = ''1'', u_Email = ''alice@example.com'', u_Status = ''active''\<rparr>, w2)"
    by (simp add: prod_eq_iff)
  moreover have "db w2 = db session_world" "now_calls w2 = 0" by (simp_all add: w2_def assms)
  then obtain d where "find_by_user_id sample_env \<lparr>dbHash = ''k3y'', sessionMaxAge = 180\<rparr> ''1'' w2
      = (Inr (Some (session_of \<lparr>dbHash = ''k3y'', sessionMaxAge = 180\<rparr> alice_session)), after_find w2 d)"
    using sample_find by blast
  ultimately show ?thesis
    by (simp add: EnsureSession_def asked_def Let_def IsActive_def session_of_def alice_session_def)
qed

lemma session_world_fields [simp]: "now_calls session_world = 0" "sql_calls session_world = 0"
    "http_sent session_world = []"
  by (simp_all add: session_world_def world_of_def)

text \<open>C30 (error): an error of the service is the refusal only when no staff member has the email or one
  who has it is not active; every other error stands for a statement or a reading of the random
  source of this very call that failed.\<close>

theorem error_classes:
  "case EnsureSession (mariadb_service e s lg) ck em w of
     (Inr c, w') \<Rightarrow> True
   | (Inl err, w') \<Rightarrow>
       if errors_is err ErrUnauthorized
       then filter (\<lambda>usr. text_eq e (ur_email usr) em) (users (db w)) = []
         \<or> (\<exists>usr. usr \<in> set (users (db w)) \<and> text_eq e (ur_email usr) em \<and> ur_status usr \<noteq> ''active'')
       else (\<exists>k. sql_calls w \<le> k \<and> k < sql_calls w' \<and> sql_fault e k \<noteq> None)
         \<or> (\<exists>k. rand_calls w \<le> k \<and> k < rand_calls w' \<and> entropy e k = None)"
proof (cases rule: ensure_cases [of ck "mariadb_service e s lg" em w])
  case fast
  then show ?thesis by (simp add: prod.case_eq_if)
next
  case (no_user err w2)
  then have "fst (find_by_email e em (asked (mariadb_service e s lg) em w)) = Inl err"
    and "sql_calls w2 = Suc (sql_calls w)"
    using find_by_email_frame(6) [of e em "asked (mariadb_service e s lg) em w"] by simp_all
  with find_by_email_error [of e em "asked (mariadb_service e s lg) em w" err] no_user show ?thesis
    by (auto simp: filter_empty_conv)
next
  case (inactive usr w2)
  then have "fst (find_by_email e em (asked (mariadb_service e s lg) em w)) = Inr usr" by simp
  from find_by_email_user [OF this] inactive show ?thesis by (auto simp: IsActive_def)
next
  case (lookup_failed usr w2 err w3)
  then have "sql_calls w2 = Suc (sql_calls w)"
    using find_by_email_frame(6) [of e em "asked (mariadb_service e s lg) em w"] by simp
  moreover have "find_by_user_id e s (u_ID usr) w2 = (Inl err, w3)" using lookup_failed by simp
  note find_error_fault [OF this]
  ultimately show ?thesis using lookup_failed(5) by auto
next
  case (create_failed usr w2 w3 err w4)
  then have "sql_calls w2 = Suc (sql_calls w)" "rand_calls w2 = rand_calls w"
    using find_by_email_frame(5,6) [of e em "asked (mariadb_service e s lg) em w"] by simp_all
  moreover have "find_by_user_id e s (u_ID usr) w2 = (Inr None, w3)" using create_failed by simp
  note find_none_calls [OF this]
  moreover have "create_session e s (u_ID usr) w3 = (Inl err, w4)" using create_failed by simp
  note create_error_fault [OF this]
  ultimately show ?thesis using create_failed(6) by auto
qed auto

text \<open>A request that is let through by its cookie, and one refused because of its
  user, leaves every table as it was.\<close>

lemma refused_writes_nothing:
  "(case fst (EnsureSession (mariadb_service e s lg) ck em w) of
      Inr c \<Rightarrow> c = [] | Inl err \<Rightarrow> errors_is err ErrUnauthorized)
   \<longrightarrow> db (snd (EnsureSession (mariadb_service e s lg) ck em w)) = db w"
proof
  assume "case fst (EnsureSession (mariadb_service e s lg) ck em w) of
      Inr c \<Rightarrow> c = [] | Inl err \<Rightarrow> errors_is err ErrUnauthorized"
  then have "hasGhostSessionCookie ck \<or> (case fst (FindByEmail (NewUserRepository e)
      (em) (asked (mariadb_service e s lg) em w)) of Inl err \<Rightarrow> True | Inr usr \<Rightarrow> \<not> IsActive usr)"
    using mariadb_service.empty_iff_fast [of e s lg ck em w] mariadb_service.refused_iff [of e s lg ck em w]
    by (auto simp: mariadb_service_def [symmetric] split: sum.splits)
  then show "db (snd (EnsureSession (mariadb_service e s lg) ck em w)) = db w"
    unfolding mariadb_service_def by (rule mariadb_service.no_session_no_write)
qed

lemma refused_writes_nothing_witness:
  "db (snd (EnsureSession (mariadb_service sample_env \<lparr>dbHash = ''k3y'', sessionMaxAge = 180\<rparr> LevelInfo) []
     ''bob@example.com'' session_world)) = db session_world"
  by (rule refused_writes_nothing [rule_format]) (simp add: EnsureSession_def find_by_email_def run_sql_def select_user_def limit_one_def IsActive_def
      Let_def sample_defs)

text \<open>The store with another secret signs with it and does nothing else differently.\<close>

lemma find_rekey:
  "find_by_user_id e (s\<lparr>dbHash := k\<rparr>) u w
     = map_prod (map_sum id (map_option (\<lambda>ses. ses\<lparr>s_SignedCookieValue := signCookie (s_SessionID ses) k\<rparr>))) id
         (find_by_user_id e s u w)"
  by (simp add: find_by_user_id_def buildSessionData_def Let_def split_def split: sum.split)

lemma create_rekey:
  "create_session e (s\<lparr>dbHash := k\<rparr>) u w
     = map_prod (map_sum id (\<lambda>ses. ses\<lparr>s_SignedCookieValue := signCookie (s_SessionID ses) k\<rparr>)) id
         (create_session e s u w)"
  by (simp add: create_session_def buildSessionData_def Let_def split_def split: sum.split)

text \<open>With the log threshold at \<open>info\<close> or above, nothing a request leaves behind depends on the
  signing secret: with any other secret the log, the tables and every other part of the world
  afterwards are the same, so that neither the secret nor a signature can be read from them.\<close>

lemma cookie_not_logged:
  assumes "LevelInfo \<le> lg"
  shows "snd (EnsureSession (mariadb_service e (s\<lparr>dbHash := k\<rparr>) lg) ck em w)
    = snd (EnsureSession (mariadb_service e s lg) ck em w)"
proof -
  have quiet: "log_at lg LevelDebug m a v = v" for m a v using assms by (simp add: log_at_def)
  show ?thesis
    by (simp add: EnsureSession_def find_rekey create_rekey quiet Let_def split_def map_prod_def
        split: sum.split option.split)
qed

lemma cookie_not_logged_witness:
  "logs (snd (EnsureSession (mariadb_service sample_env \<lparr>dbHash = ''other'', sessionMaxAge = 180\<rparr> LevelWarn) []
     ''alice@example.com'' session_world))
   = logs (snd (EnsureSession (sample_service LevelWarn) [] ''alice@example.com'' session_world))"
  using cookie_not_logged [where lg = LevelWarn and e = sample_env and s = "\<lparr>dbHash = ''k3y'', sessionMaxAge = 180\<rparr>"
      and k = "''other''" and ck = "[]" and em = "''alice@example.com''" and w = session_world] by simp

end
