(* ===== verification/ForwardAuth.thy ===== *)
theory ForwardAuth
  imports Ports Samples
begin

text \<open>
  \<open>internal/adapters/secondary/authentik/forward_auth.go\<close>: the client of Authentik's forward
  auth endpoint.  The endpoint's answer and the transport's failures are the environment's
  \<open>round_trip\<close>; the client does not follow redirects, so one call of \<open>Check\<close> sends one
  request.
\<close>

text \<open>\<open>Client\<close>: the endpoint, and the two settings of its \<open>http.Client\<close>; a redirect policy of
  \<open>http.ErrUseLastResponse\<close> makes the first response the result.\<close>

record client =
  endpointURL :: string
  Timeout :: go_int
  CheckRedirect_UseLastResponse :: bool

definition NewClient :: "string \<Rightarrow> client" where
  "NewClient url = \<lparr>endpointURL = url, Timeout = 5000000000, CheckRedirect_UseLastResponse = True\<rparr>"

text \<open>\<open>http.NewRequestWithContext\<close>: the method and the URL with an empty header, or the error of
  \<open>url.Parse\<close>.\<close>

definition new_request :: "environment \<Rightarrow> string \<Rightarrow> string \<Rightarrow> go_error + http_request" where
  "new_request e m url = (case url_error e url of
     Some msg \<Rightarrow> Inl (ErrorText msg)
   | None \<Rightarrow> Inr \<lparr>rq_method = m, rq_url = url, rq_header = Map.empty\<rparr>)"

text \<open>\<open>httpClient.Do\<close>, one round trip: its failures are those of the transport, the time limit,
  and a redirect whose \<open>Location\<close> is not a URL.  \<open>http_sent\<close> lists what the client was given: one
  the transport refuses, for an invalid header value, is in it too.\<close>

definition http_do :: "environment \<Rightarrow> http_request \<Rightarrow> world \<Rightarrow> (go_error + http_response) \<times> world" where
  "http_do e rq w =
     ((case round_trip e (length (http_sent w)) rq of Inl msg \<Rightarrow> Inl (ErrorText msg) | Inr resp \<Rightarrow> Inr resp),
      w\<lparr>http_sent := http_sent w @ [rq]\<rparr>)"

text \<open>The headers \<open>Check\<close> sets on the request.\<close>

definition forward_headers :: "string \<Rightarrow> string \<Rightarrow> string \<Rightarrow> string \<Rightarrow> header \<Rightarrow> header" where
  "forward_headers cookieHeader host proto uri h =
     (let h1 = (if cookieHeader \<noteq> [] then header_set h ''Cookie'' cookieHeader else h);
          h2 = header_set h1 ''X-Forwarded-Host'' host;
          h3 = header_set h2 ''X-Forwarded-Proto'' proto
      in header_set h3 ''X-Forwarded-Uri'' uri)"

text \<open>The \<open>switch\<close> on the response's status.  \<open>resp.Header["Set-Cookie"]\<close> is read without
  canonicalisation; a missing key is the empty slice.\<close>

definition read_response :: "http_response \<Rightarrow> go_error + string \<times> string \<times> string list" where
  "read_response resp =
     (if rs_status resp = 200 then
        (let email = header_get (rs_header resp) ''X-Authentik-Email'' in
         if email = [] then Inl (ErrorText ''authentik forward auth: 200 response missing X-Authentik-Email header'')
         else Inr (email, [], []))
      else if rs_status resp = 302 then
        (let location = header_get (rs_header resp) ''Location'' in
         if location = [] then Inl (ErrorText ''authentik forward auth: 302 response missing Location header'')
         else Inr ([], location, case rs_header resp ''Set-Cookie'' of Some cs \<Rightarrow> cs | None \<Rightarrow> []))
      else Inl (ErrorText (''authentik forward auth: unexpected HTTP status '' @ int_dec (rs_status resp))))"

definition Check :: "environment \<Rightarrow> client \<Rightarrow> string \<Rightarrow> string \<Rightarrow> string \<Rightarrow> string \<Rightarrow> world
    \<Rightarrow> (go_error + string \<times> string \<times> string list) \<times> world" where
  "Check e c cookieHeader host proto uri w =
     (if endpointURL c = [] then
        (Inl (ErrorText ''authentik forward auth: endpoint URL is not configured''), w)
      else case new_request e ''GET'' (endpointURL c) of
        Inl err \<Rightarrow> (Inl (Wrapped ''authentik forward auth: building request: '' err ''''), w)
      | Inr rq \<Rightarrow>
          (let (r, w1) = http_do e (rq\<lparr>rq_header := forward_headers cookieHeader host proto uri (rq_header rq)\<rparr>) w
           in case r of
                Inl err \<Rightarrow> (Inl (Wrapped ''authentik forward auth: request failed: '' err ''''), w1)
              | Inr resp \<Rightarrow> (read_response resp, w1)))"

definition authentik_client :: "environment \<Rightarrow> client \<Rightarrow> forward_auth_checker" where
  "authentik_client e c = \<lparr>CheckAuth = Check e c\<rparr>"

subsection \<open>Lemmas\<close>

lemma http_do_frame [simp, frame_simps]:
  "db (snd (http_do e rq w)) = db w" "logs (snd (http_do e rq w)) = logs w"
  "http_sent (snd (http_do e rq w)) = http_sent w @ [rq]" "now_calls (snd (http_do e rq w)) = now_calls w"
  "rand_calls (snd (http_do e rq w)) = rand_calls w" "sql_calls (snd (http_do e rq w)) = sql_calls w"
  by (simp_all add: http_do_def)

lemma Check_frame [simp, frame_simps]:
  "db (snd (Check e c ck h p u w)) = db w" "logs (snd (Check e c ck h p u w)) = logs w"
  "now_calls (snd (Check e c ck h p u w)) = now_calls w" "rand_calls (snd (Check e c ck h p u w)) = rand_calls w"
  "sql_calls (snd (Check e c ck h p u w)) = sql_calls w"
  by (simp_all add: Check_def Let_def split_def split: sum.split)

text \<open>An answer comes from one response of the endpoint.\<close>

definition authentik_request :: "client \<Rightarrow> string \<Rightarrow> string \<Rightarrow> string \<Rightarrow> string \<Rightarrow> http_request" where
  "authentik_request c ck h p u = \<lparr>rq_method = ''GET'', rq_url = endpointURL c,
     rq_header = forward_headers ck h p u Map.empty\<rparr>"

lemma Check_http:
  "http_sent (snd (Check e c ck h p u w)) = http_sent w @
     (if endpointURL c = [] \<or> url_error e (endpointURL c) \<noteq> None then [] else [authentik_request c ck h p u])"
  by (simp add: Check_def new_request_def authentik_request_def Let_def split_def split: sum.split option.split)

lemma forward_headers_eq:
  "forward_headers ck h p u Map.empty = (if ck = [] then Map.empty else [''Cookie'' \<mapsto> [ck]])(''X-Forwarded-Host'' \<mapsto> [h],
     ''X-Forwarded-Proto'' \<mapsto> [p], ''X-Forwarded-Uri'' \<mapsto> [u])"
  by (simp add: forward_headers_def header_set_def)

lemma Check_answer:
  assumes "fst (Check e c ck h p u w) = Inr a"
  obtains resp where "round_trip e (length (http_sent w)) (authentik_request c ck h p u) = Inr resp"
    "read_response resp = Inr a"
    "http_sent (snd (Check e c ck h p u w)) = http_sent w @ [authentik_request c ck h p u]"
    "endpointURL c \<noteq> []"
  using assms
  by (auto simp: Check_def new_request_def http_do_def authentik_request_def Let_def split_def
      split: if_splits option.splits sum.splits)

lemma read_response_exclusive:
  "read_response resp = Inr (em, loc, cks) \<Longrightarrow>
   (rs_status resp = 200 \<and> em \<noteq> [] \<and> em = header_get (rs_header resp) ''X-Authentik-Email'' \<and> loc = [] \<and> cks = [])
   \<or> (rs_status resp = 302 \<and> em = [] \<and> loc \<noteq> [] \<and> loc = header_get (rs_header resp) ''Location''
      \<and> cks = (case rs_header resp ''Set-Cookie'' of Some cs \<Rightarrow> cs | None \<Rightarrow> []))"
  by (auto simp: read_response_def Let_def split: if_splits)

interpretation authentik: forward_auth_port "authentik_client e c" for e c
proof
  fix ck h p u w em loc cks
  assume "fst (CheckAuth (authentik_client e c) ck h p u w) = Inr (em, loc, cks)"
  then have "fst (Check e c ck h p u w) = Inr (em, loc, cks)" by (simp add: authentik_client_def)
  then obtain resp where "read_response resp = Inr (em, loc, cks)" by (rule Check_answer)
  then show "(em \<noteq> [] \<and> loc = [] \<and> cks = []) \<or> (em = [] \<and> loc \<noteq> [])"
    using read_response_exclusive by blast
qed (simp_all add: authentik_client_def)
subsection \<open>Properties\<close>

text \<open>C32 (functional): a check that succeeds rests on one response of the endpoint to this
  request, and is either a login (status 200: the email of \<open>X-Authentik-Email\<close>, not empty, and
  nothing else) or a redirect (status 302: the non-empty \<open>Location\<close> with all \<open>Set-Cookie\<close>
  values in order, and no email); any other status, and a 200 or 302 without its header, is an
  error, which is never the refusal of a user.\<close>

theorem check_outcomes:
  "case fst (Check e c ck h p u w) of
     Inr (em, loc, cks) \<Rightarrow>
       (\<exists>resp. round_trip e (length (http_sent w)) (authentik_request c ck h p u) = Inr resp \<and>
          ((rs_status resp = 200 \<and> em = header_get (rs_header resp) ''X-Authentik-Email'' \<and> em \<noteq> []
              \<and> loc = [] \<and> cks = [])
           \<or> (rs_status resp = 302 \<and> em = [] \<and> loc = header_get (rs_header resp) ''Location'' \<and> loc \<noteq> []
              \<and> cks = (case rs_header resp ''Set-Cookie'' of Some cs \<Rightarrow> cs | None \<Rightarrow> []))))
   | Inl err \<Rightarrow> \<not> errors_is err ErrUnauthorized
       \<and> (case round_trip e (length (http_sent w)) (authentik_request c ck h p u) of
            Inl m \<Rightarrow> True
          | Inr resp \<Rightarrow> endpointURL c = [] \<or> (\<exists>m. url_error e (endpointURL c) = Some m)
              \<or> rs_status resp \<in> - {200, 302}
              \<or> (rs_status resp = 200 \<and> header_get (rs_header resp) ''X-Authentik-Email'' = [])
              \<or> (rs_status resp = 302 \<and> header_get (rs_header resp) ''Location'' = []))"
proof (cases "fst (Check e c ck h p u w)")
  case (Inr a)
  obtain em loc cks where a: "a = (em, loc, cks)" by (metis prod_cases3)
  obtain resp where "round_trip e (length (http_sent w)) (authentik_request c ck h p u) = Inr resp"
    "read_response resp = Inr a" using Inr by (rule Check_answer)
  with read_response_exclusive [of resp em loc cks] show ?thesis by (simp add: Inr a) blast
next
  case (Inl err)
  then show ?thesis
    by (auto simp: Check_def new_request_def http_do_def authentik_request_def read_response_def Let_def
        split_def split: if_splits option.splits sum.splits)
qed

end
