(* ===== verification/ExtAuth.thy ===== *)
theory ExtAuth
  imports AuthService ForwardAuth
begin

text \<open>
  \<open>internal/adapters/primary/extauth/server.go\<close>: the Envoy External Authorization server.  A
  \<open>CheckRequest\<close> is a chain of optional protobuf messages that ends in the header map; a
  \<open>CheckResponse\<close> is a status code and either an OK or a denied response.  \<open>ext_check\<close> is one
  \<open>Check\<close> RPC over the two interface values of the server; the properties hold for the
  adapters \<open>cmd/main.go\<close> wires in.
\<close>

subsection \<open>Messages\<close>

record attribute_http = ah_headers :: "string \<Rightarrow> string option"
record attribute_request = ar_http :: "attribute_http option"
record attribute_context = ac_request :: "attribute_request option"
record check_request = cr_attributes :: "attribute_context option"

text \<open>\<open>req.GetAttributes().GetRequest().GetHttp().GetHeaders()\<close>: the getters of a missing
  message return the next missing message, and the headers of none are the nil map, which
  reads like the empty one.\<close>

definition request_headers :: "check_request option \<Rightarrow> string \<Rightarrow> string option" where
  "request_headers req = (case Option.bind (Option.bind (Option.bind req cr_attributes) ac_request) ar_http of
     Some h \<Rightarrow> ah_headers h | None \<Rightarrow> Map.empty)"

text \<open>\<open>headers[key]\<close>: the zero value for a missing key.\<close>

definition header_at :: "(string \<Rightarrow> string option) \<Rightarrow> string \<Rightarrow> string" where
  "header_at h k = (case h k of Some v \<Rightarrow> v | None \<Rightarrow> [])"

datatype append_action = APPEND_IF_EXISTS_OR_ADD | OVERWRITE_IF_EXISTS_OR_ADD

record header_value_option =
  hv_key :: string
  hv_value :: string
  hv_action :: append_action

datatype rpc_code = OK | PermissionDenied

datatype http_answer =
    OkResponse
  | DeniedResponse nat "header_value_option list"

record check_response =
  cr_status :: rpc_code
  cr_http :: http_answer

subsection \<open>The server\<close>

definition ghostAdminPath :: string where
  "ghostAdminPath = ''/ghost/''"

definition cookieMaxAge :: go_int where
  "cookieMaxAge = 180 * 24 * 60 * 60"

record server =
  sv_auth :: auth_service
  sv_authentik :: forward_auth_checker
  sv_logger :: logger
  sessionMaxAgeSecs :: go_int

definition NewServer :: "auth_service \<Rightarrow> forward_auth_checker \<Rightarrow> logger \<Rightarrow> go_int \<Rightarrow> server" where
  "NewServer auth authentik lg days =
     \<lparr>sv_auth = auth, sv_authentik = authentik, sv_logger = lg, sessionMaxAgeSecs = days * 24 * 60 * 60\<rparr>"

definition okResponse :: check_response where
  "okResponse = \<lparr>cr_status = OK, cr_http = OkResponse\<rparr>"

definition deniedRedirectTo :: "string \<Rightarrow> string list \<Rightarrow> check_response" where
  "deniedRedirectTo url setCookies =
     \<lparr>cr_status = PermissionDenied, cr_http = DeniedResponse 302
        (\<lparr>hv_key = ''location'', hv_value = url, hv_action = OVERWRITE_IF_EXISTS_OR_ADD\<rparr>
         # map (\<lambda>c. \<lparr>hv_key = ''set-cookie'', hv_value = c, hv_action = APPEND_IF_EXISTS_OR_ADD\<rparr>) setCookies)\<rparr>"

definition deniedRedirectWithCookie :: "string \<Rightarrow> string \<Rightarrow> check_response" where
  "deniedRedirectWithCookie path cookieValue =
     \<lparr>cr_status = PermissionDenied, cr_http = DeniedResponse 302
        [\<lparr>hv_key = ''location'', hv_value = path, hv_action = OVERWRITE_IF_EXISTS_OR_ADD\<rparr>,
         \<lparr>hv_key = ''set-cookie'', hv_value = cookieValue, hv_action = OVERWRITE_IF_EXISTS_OR_ADD\<rparr>]\<rparr>"

definition buildSetCookieHeader :: "server \<Rightarrow> string \<Rightarrow> string" where
  "buildSetCookieHeader s signedCookieValue =
     ghostSessionCookieName @ ''='' @ signedCookieValue
     @ ''; Path=/ghost; HttpOnly; Secure; SameSite=None; Max-Age='' @ int_dec (sint (sessionMaxAgeSecs s))"

fun firstNonEmpty :: "string list \<Rightarrow> string" where
  "firstNonEmpty [] = []"
| "firstNonEmpty (v # vals) = (if v \<noteq> [] then v else firstNonEmpty vals)"

text \<open>\<open>Check\<close> returns a response and a gRPC error.\<close>

definition ext_check :: "server \<Rightarrow> check_request option \<Rightarrow> world \<Rightarrow> (check_response \<times> go_error option) \<times> world" where
  "ext_check s req w =
     (let headers = header_at (request_headers req);
          cookieHeader = headers ''cookie'';
          host = firstNonEmpty [headers '':authority'', headers ''host''];
          proto = firstNonEmpty [headers '':scheme'', headers ''x-forwarded-proto''];
          uri = headers '':path'';
          w1 = log_at (sv_logger s) LevelDebug ''extauth check''
            [(''has_cookie_header'', ABool (cookieHeader \<noteq> [])), (''host'', AString host),
             (''proto'', AString proto), (''uri'', AString uri)] w;
          (r, w2) = CheckAuth (sv_authentik s) cookieHeader host proto uri w1
      in case r of
           Inl err \<Rightarrow>
             ((okResponse, None), log_at (sv_logger s) LevelWarn ''authentik forward auth error, failing open''
               [(''error'', AError err)] w2)
         | Inr (email, redirectURL, authentikCookies) \<Rightarrow>
             if redirectURL \<noteq> [] then
               ((deniedRedirectTo redirectURL authentikCookies, None),
                log_at (sv_logger s) LevelDebug ''authentik redirect, not authenticated''
                  [(''location'', AString redirectURL), (''proxy_cookies'', AInt (int (length authentikCookies)))] w2)
             else
               (let (r2, w3) = EnsureSessionOp (sv_auth s) cookieHeader email w2 in
                case r2 of
                  Inl err \<Rightarrow>
                    ((okResponse, None), log_at (sv_logger s) LevelWarn ''auth service error, failing open''
                      [(''error'', AError err)] w3)
                | Inr signedCookie \<Rightarrow>
                    if signedCookie = [] then ((okResponse, None), w3)
                    else
                      ((deniedRedirectWithCookie ghostAdminPath (buildSetCookieHeader s signedCookie), None),
                       log_at (sv_logger s) LevelInfo ''issuing cookie-set redirect''
                         [(''redirect_target'', AString ghostAdminPath), (''email'', AString email)] w3)))"

subsection \<open>Runs\<close>

text \<open>The request's cookie header and the three forwarding fields.\<close>

definition cookie_of :: "check_request option \<Rightarrow> string" where
  "cookie_of req = header_at (request_headers req) ''cookie''"

definition host_of :: "check_request option \<Rightarrow> string" where
  "host_of req = firstNonEmpty [header_at (request_headers req) '':authority'', header_at (request_headers req) ''host'']"

definition proto_of :: "check_request option \<Rightarrow> string" where
  "proto_of req = firstNonEmpty [header_at (request_headers req) '':scheme'', header_at (request_headers req) ''x-forwarded-proto'']"

definition uri_of :: "check_request option \<Rightarrow> string" where
  "uri_of req = header_at (request_headers req) '':path''"

definition noted :: "server \<Rightarrow> check_request option \<Rightarrow> world \<Rightarrow> world" where
  "noted s req w = log_at (sv_logger s) LevelDebug ''extauth check''
     [(''has_cookie_header'', ABool (cookie_of req \<noteq> [])), (''host'', AString (host_of req)),
      (''proto'', AString (proto_of req)), (''uri'', AString (uri_of req))] w"

lemma noted_frame [simp, frame_simps]:
  "db (noted s req w) = db w" "now_calls (noted s req w) = now_calls w" "rand_calls (noted s req w) = rand_calls w"
  "sql_calls (noted s req w) = sql_calls w" "http_sent (noted s req w) = http_sent w"
  by (simp_all add: noted_def)

lemma ext_check_eq:
  "ext_check s req w =
     (let (r, w2) = CheckAuth (sv_authentik s) (cookie_of req) (host_of req) (proto_of req) (uri_of req) (noted s req w)
      in case r of
           Inl err \<Rightarrow>
             ((okResponse, None), log_at (sv_logger s) LevelWarn ''authentik forward auth error, failing open''
               [(''error'', AError err)] w2)
         | Inr (email, redirectURL, authentikCookies) \<Rightarrow>
             if redirectURL \<noteq> [] then
               ((deniedRedirectTo redirectURL authentikCookies, None),
                log_at (sv_logger s) LevelDebug ''authentik redirect, not authenticated''
                  [(''location'', AString redirectURL), (''proxy_cookies'', AInt (int (length authentikCookies)))] w2)
             else
               (let (r2, w3) = EnsureSessionOp (sv_auth s) (cookie_of req) email w2 in
                case r2 of
                  Inl err \<Rightarrow>
                    ((okResponse, None), log_at (sv_logger s) LevelWarn ''auth service error, failing open''
                      [(''error'', AError err)] w3)
                | Inr signedCookie \<Rightarrow>
                    if signedCookie = [] then ((okResponse, None), w3)
                    else
                      ((deniedRedirectWithCookie ghostAdminPath (buildSetCookieHeader s signedCookie), None),
                       log_at (sv_logger s) LevelInfo ''issuing cookie-set redirect''
                         [(''redirect_target'', AString ghostAdminPath), (''email'', AString email)] w3)))"
  by (simp only: ext_check_def cookie_of_def host_of_def proto_of_def uri_of_def noted_def Let_def)

lemma ext_check_cases:
  obtains
    (authentik_error) err w2 where
      "CheckAuth (sv_authentik s) (cookie_of req) (host_of req) (proto_of req) (uri_of req) (noted s req w) = (Inl err, w2)"
      "ext_check s req w = ((okResponse, None), log_at (sv_logger s) LevelWarn
         ''authentik forward auth error, failing open'' [(''error'', AError err)] w2)"
  | (login) em loc cks w2 where
      "CheckAuth (sv_authentik s) (cookie_of req) (host_of req) (proto_of req) (uri_of req) (noted s req w)
         = (Inr (em, loc, cks), w2)" "loc \<noteq> []"
      "fst (ext_check s req w) = (deniedRedirectTo loc cks, None)" "db (snd (ext_check s req w)) = db w2"
      "http_sent (snd (ext_check s req w)) = http_sent w2"
  | (service_error) em cks w2 err w3 where
      "CheckAuth (sv_authentik s) (cookie_of req) (host_of req) (proto_of req) (uri_of req) (noted s req w)
         = (Inr (em, [], cks), w2)"
      "EnsureSessionOp (sv_auth s) (cookie_of req) em w2 = (Inl err, w3)"
      "ext_check s req w = ((okResponse, None), log_at (sv_logger s) LevelWarn
         ''auth service error, failing open'' [(''error'', AError err)] w3)"
  | (pass) em cks w2 w3 where
      "CheckAuth (sv_authentik s) (cookie_of req) (host_of req) (proto_of req) (uri_of req) (noted s req w)
         = (Inr (em, [], cks), w2)"
      "EnsureSessionOp (sv_auth s) (cookie_of req) em w2 = (Inr [], w3)"
      "ext_check s req w = ((okResponse, None), w3)"
  | (plant) em cks w2 c w3 where
      "CheckAuth (sv_authentik s) (cookie_of req) (host_of req) (proto_of req) (uri_of req) (noted s req w)
         = (Inr (em, [], cks), w2)"
      "EnsureSessionOp (sv_auth s) (cookie_of req) em w2 = (Inr c, w3)" "c \<noteq> []"
      "fst (ext_check s req w) = (deniedRedirectWithCookie ghostAdminPath (buildSetCookieHeader s c), None)"
      "db (snd (ext_check s req w)) = db w3" "http_sent (snd (ext_check s req w)) = http_sent w3"
proof -
  obtain r w2 where a: "CheckAuth (sv_authentik s) (cookie_of req) (host_of req) (proto_of req) (uri_of req)
      (noted s req w) = (r, w2)" by fastforce
  note defs = ext_check_eq a Let_def
  show thesis
  proof (cases r)
    case (Inl err)
    with a show ?thesis by (intro authentik_error [of err w2]) (simp_all add: defs)
  next
    case (Inr t)
    obtain em loc cks where t: "t = (em, loc, cks)" by (metis prod_cases3)
    show ?thesis
    proof (cases "loc = []")
      case False
      with a Inr t show ?thesis by (intro login [of em loc cks w2]) (simp_all add: defs)
    next
      case nil: True
      obtain r2 w3 where b: "EnsureSessionOp (sv_auth s) (cookie_of req) em w2 = (r2, w3)" by fastforce
      note defs = defs b
      show ?thesis
      proof (cases r2)
        case (Inl err)
        with a b Inr t nil show ?thesis by (intro service_error [of em cks w2 err w3]) (simp_all add: defs)
      next
        case (Inr c)
        with a b \<open>r = Inr t\<close> t nil show ?thesis
          by (cases "c = []") (intro pass [of em cks w2 w3] plant [of em cks w2 c w3]; simp_all add: defs)+
      qed
    qed
  qed
qed
subsection \<open>The wired server\<close>

text \<open>\<open>cmd/main.go\<close> gives the service and the server the same logger and the store and the server
  the same lifetime.\<close>

definition wired :: "environment \<Rightarrow> client \<Rightarrow> mariadb_store \<Rightarrow> logger \<Rightarrow> server" where
  "wired e c s lg = NewServer (auth_service_of (mariadb_service e s lg)) (authentik_client e c) lg (sessionMaxAge s)"

lemma wired_fields [simp]:
  "CheckAuth (sv_authentik (wired e c s lg)) = Check e c"
  "EnsureSessionOp (sv_auth (wired e c s lg)) = EnsureSession (mariadb_service e s lg)"
  "sv_logger (wired e c s lg) = lg" "sessionMaxAgeSecs (wired e c s lg) = sessionMaxAge s * 24 * 60 * 60"
  by (simp_all add: wired_def NewServer_def auth_service_of_def authentik_client_def)

text \<open>The question one request puts to Authentik.\<close>

definition login_request :: "client \<Rightarrow> check_request option \<Rightarrow> http_request" where
  "login_request c req = authentik_request c (cookie_of req) (host_of req) (proto_of req) (uri_of req)"

lemma redirects_differ: "deniedRedirectTo loc cks \<noteq> deniedRedirectWithCookie path v"
  by (cases cks) (simp_all add: deniedRedirectTo_def deniedRedirectWithCookie_def)

lemma responses_differ [simp]:
  "deniedRedirectTo loc cks \<noteq> okResponse" "deniedRedirectWithCookie path v \<noteq> okResponse"
  by (simp_all add: okResponse_def deniedRedirectTo_def deniedRedirectWithCookie_def)

lemma EnsureSession_http [simp]:
  "http_sent (snd (EnsureSession (mariadb_service e s lg) ck em w)) = http_sent w"
proof -
  have find: "http_sent (snd (find_by_user_id e s u v)) = http_sent v" for u v
    by (simp add: find_by_user_id_def buildSessionData_def Let_def split_def split: sum.split)
  have create: "http_sent (snd (create_session e s u v)) = http_sent v" for u v
    by (simp add: create_session_def buildSessionData_def Let_def split_def split: sum.split)
  show ?thesis
    by (simp add: EnsureSession_def Let_def split_def find create split: sum.split option.split)
qed

text \<open>An email comes from a login: status 200 to this very request.\<close>

lemma check_email:
  assumes "Check e c (cookie_of req) (host_of req) (proto_of req) (uri_of req) (noted s req w) = (Inr (em, [], cks), w2)"
  obtains resp where "round_trip e (length (http_sent w)) (login_request c req) = Inr resp" "rs_status resp = 200"
    "em = header_get (rs_header resp) ''X-Authentik-Email''" "db w2 = db w"
proof -
  have f: "fst (Check e c (cookie_of req) (host_of req) (proto_of req) (uri_of req) (noted s req w)) = Inr (em, [], cks)"
    using assms by simp
  obtain resp where "round_trip e (length (http_sent w)) (login_request c req) = Inr resp"
    "read_response resp = Inr (em, [], cks)"
    using Check_answer [OF f] by (auto simp: login_request_def)
  with read_response_exclusive [of resp em "[]" cks] that [of resp]
    Check_frame(1) [of e c "cookie_of req" "host_of req" "proto_of req" "uri_of req" "noted s req w"] assms
  show thesis by auto
qed

lemma planted_staff:
  assumes "fst (ext_check (wired e c s lg) req w) = (deniedRedirectWithCookie path v, None)"
  shows "path = ghostAdminPath \<and> (\<exists>resp usr row. round_trip e (length (http_sent w)) (login_request c req) = Inr resp \<and> rs_status resp = 200
    \<and> usr \<in> set (users (db w)) \<and> ur_status usr = ''active''
    \<and> text_eq e (ur_email usr) (header_get (rs_header resp) ''X-Authentik-Email'')
    \<and> row \<in> set (sessions (db (snd (ext_check (wired e c s lg) req w))))
    \<and> (sr_user_id row = ur_id usr \<or> text_eq e (sr_user_id row) (ur_id usr))
    \<and> v = buildSetCookieHeader (wired e c s lg) (signCookie (sr_session_id row) (dbHash s)))"
proof (cases rule: ext_check_cases [of "wired e c s lg" req w])
  case (login em loc cks w2)
  with assms redirects_differ [of loc cks path v] show ?thesis by simp
next
  case (plant em cks w2 ck w3)
  from plant(1) obtain resp where r: "round_trip e (length (http_sent w)) (login_request c req) = Inr resp"
    "rs_status resp = 200" "em = header_get (rs_header resp) ''X-Authentik-Email''" "db w2 = db w"
    unfolding wired_fields by (rule check_email)
  have ens: "EnsureSession (mariadb_service e s lg) (cookie_of req) em w2 = (Inr ck, w3)" using plant(2) by simp
  then have "fst (EnsureSession (mariadb_service e s lg) (cookie_of req) em w2) = Inr ck" by simp
  from cookie_only_for_staff [OF this plant(3)] ens obtain usr row where u: "usr \<in> set (users (db w2))"
    "row \<in> set (sessions (db w3))" "text_eq e (ur_email usr) em" "ur_status usr = ''active''"
    "sr_user_id row = ur_id usr \<or> text_eq e (sr_user_id row) (ur_id usr)"
    "ck = signCookie (sr_session_id row) (dbHash s)" by auto
  have "path = ghostAdminPath" "v = buildSetCookieHeader (wired e c s lg) ck"
    using plant(4) assms by (simp_all add: deniedRedirectWithCookie_def)
  with r u plant(5) show ?thesis by auto
qed (use assms in \<open>simp_all add: okResponse_def deniedRedirectWithCookie_def\<close>)

subsection \<open>Properties\<close>

text \<open>Every RPC is answered without a gRPC error, by letting the request through or by a 302 whose
  first header is a non-empty \<open>location\<close> and whose other headers are \<open>set-cookie\<close>.\<close>

lemma always_answers:
  "\<exists>resp w'. ext_check s req w = ((resp, None), w') \<and>
     (resp = okResponse \<or>
      (\<exists>loc cookies. cr_status resp = PermissionDenied \<and> loc \<noteq> [] \<and>
         cr_http resp = DeniedResponse 302 (\<lparr>hv_key = ''location'', hv_value = loc,
           hv_action = OVERWRITE_IF_EXISTS_OR_ADD\<rparr> # cookies)
         \<and> list_all (\<lambda>h. hv_key h = ''set-cookie'') cookies))"
proof (cases rule: ext_check_cases [of s req w])
  case (login em loc cks w2)
  then show ?thesis
    by (cases "ext_check s req w") (auto simp: deniedRedirectTo_def list_all_iff)
next
  case (plant em cks w2 c w3)
  then show ?thesis
    by (cases "ext_check s req w") (auto simp: deniedRedirectWithCookie_def ghostAdminPath_def)
qed auto

text \<open>C1 (safety): the Ghost session cookie is planted only when Authentik answered this very
  request, forwarded with the browser's own cookies, with status 200, and the email it
  named is that of an active staff member; the cookie is then the signature of a session of
  that member that is in the table.\<close>

theorem planted_only_for_staff:
  assumes "fst (ext_check (wired e c s lg) req w) = (deniedRedirectWithCookie ghostAdminPath v, None)"
  shows "\<exists>resp usr row. round_trip e (length (http_sent w)) (login_request c req) = Inr resp \<and> rs_status resp = 200
    \<and> usr \<in> set (users (db w)) \<and> ur_status usr = ''active''
    \<and> text_eq e (ur_email usr) (header_get (rs_header resp) ''X-Authentik-Email'')
    \<and> row \<in> set (sessions (db (snd (ext_check (wired e c s lg) req w))))
    \<and> (sr_user_id row = ur_id usr \<or> text_eq e (sr_user_id row) (ur_id usr))
    \<and> v = buildSetCookieHeader (wired e c s lg) (signCookie (sr_session_id row) (dbHash s))"
  using planted_staff [OF assms] by blast

definition sample_client :: client where
  "sample_client = NewClient ''https://auth.example.com/auth''"

abbreviation sample_store :: mariadb_store where
  "sample_store \<equiv> \<lparr>dbHash = ''k3y'', sessionMaxAge = 180\<rparr>"

definition request_with :: "(string \<Rightarrow> string option) \<Rightarrow> check_request option" where
  "request_with h = Some \<lparr>cr_attributes = Some \<lparr>ac_request = Some \<lparr>ar_http = Some \<lparr>ah_headers = h\<rparr>\<rparr>\<rparr>\<rparr>"

lemma request_with_headers [simp]: "request_headers (request_with h) = h"
  by (simp add: request_headers_def request_with_def)

definition sample_request :: "check_request option" where
  "sample_request = request_with ['':authority'' \<mapsto> ''blog.example.com'', '':scheme'' \<mapsto> ''https'', '':path'' \<mapsto> ''/ghost/'']"

lemma sample_check:
  "Check sample_env sample_client ck h p u w = (Inr (''alice@example.com'', [], []),
     w\<lparr>http_sent := http_sent w @ [authentik_request sample_client ck h p u]\<rparr>)"
  by (simp add: Check_def new_request_def http_do_def read_response_def header_get_def authentik_request_def
      sample_client_def NewClient_def sample_env_def authentik_ok_def Let_def)

lemma sample_plant:
  "fst (ext_check (wired sample_env sample_client sample_store lg) sample_request session_world)
     = (deniedRedirectWithCookie ghostAdminPath
         (buildSetCookieHeader (wired sample_env sample_client sample_store lg) (signCookie ''old'' ''k3y'')), None)"
proof -
  let ?w = "noted (wired sample_env sample_client sample_store lg) sample_request session_world"
  have ck: "cookie_of sample_request = []" by (simp add: cookie_of_def sample_request_def header_at_def)
  let ?w' = "?w\<lparr>http_sent := [authentik_request sample_client [] (host_of sample_request)
    (proto_of sample_request) (uri_of sample_request)]\<rparr>"
  have "fst (EnsureSession (sample_service lg) [] ''alice@example.com'' ?w') = Inr (signCookie ''old'' ''k3y'')"
    by (rule sample_reuse) simp_all
  then obtain w3 where "EnsureSession (sample_service lg) [] ''alice@example.com'' ?w' = (Inr (signCookie ''old'' ''k3y''), w3)"
    by (metis prod.collapse)
  then show ?thesis by (simp add: ext_check_eq ck sample_check)
qed

lemma planted_only_for_staff_witness:
  "\<exists>resp. round_trip sample_env 0 (login_request sample_client sample_request) = Inr resp \<and> rs_status resp = 200
    \<and> (\<exists>usr \<in> set (users (db session_world)). ur_status usr = ''active''
        \<and> ur_email usr = header_get (rs_header resp) ''X-Authentik-Email'')"
  using planted_only_for_staff [OF sample_plant [of LevelInfo]] by (auto simp: sample_env_def)

text \<open>The answer of \<open>Check\<close>, by the answer of the endpoint.\<close>

lemma check_result:
  "(endpointURL c = [] \<or> url_error e (endpointURL c) \<noteq> None) \<Longrightarrow> \<exists>err. fst (Check e c ck h p u w) = Inl err"
  "endpointURL c \<noteq> [] \<Longrightarrow> url_error e (endpointURL c) = None \<Longrightarrow>
    fst (Check e c ck h p u w) = (case round_trip e (length (http_sent w)) (authentik_request c ck h p u) of
      Inl m \<Rightarrow> Inl (Wrapped ''authentik forward auth: request failed: '' (ErrorText m) '''') | Inr resp \<Rightarrow> read_response resp)"
proof -
  show "endpointURL c = [] \<or> url_error e (endpointURL c) \<noteq> None \<Longrightarrow> \<exists>err. fst (Check e c ck h p u w) = Inl err"
    by (auto simp: Check_def new_request_def split: option.splits)
  assume "endpointURL c \<noteq> []" "url_error e (endpointURL c) = None"
  then show "fst (Check e c ck h p u w) = (case round_trip e (length (http_sent w)) (authentik_request c ck h p u) of
      Inl m \<Rightarrow> Inl (Wrapped ''authentik forward auth: request failed: '' (ErrorText m) '''') | Inr resp \<Rightarrow> read_response resp)"
    by (cases "round_trip e (length (http_sent w)) (authentik_request c ck h p u)")
      (simp_all add: Check_def new_request_def http_do_def authentik_request_def)
qed

lemma read_response_cases:
  obtains (login) "rs_status resp = 200" "header_get (rs_header resp) ''X-Authentik-Email'' \<noteq> []"
      "read_response resp = Inr (header_get (rs_header resp) ''X-Authentik-Email'', [], [])"
  | (redirect) "rs_status resp = 302" "header_get (rs_header resp) ''Location'' \<noteq> []"
      "read_response resp = Inr ([], header_get (rs_header resp) ''Location'',
         case rs_header resp ''Set-Cookie'' of Some cs \<Rightarrow> cs | None \<Rightarrow> [])"
  | (unusable) err where "rs_status resp = 200 \<Longrightarrow> header_get (rs_header resp) ''X-Authentik-Email'' = []"
      "rs_status resp = 302 \<Longrightarrow> header_get (rs_header resp) ''Location'' = []" "read_response resp = Inl err"
  by (cases "rs_status resp = 200"; cases "rs_status resp = 302";
      cases "header_get (rs_header resp) ''X-Authentik-Email'' = []"; cases "header_get (rs_header resp) ''Location'' = []")
    (simp_all add: read_response_def)

text \<open>C2 (safety): without a login, that is when the endpoint is not configured, cannot be parsed, gives no response, or
  one that is not a 200 with an email, the RPC touches nothing: tables, clock, random source and
  statement count are as before.  A 302 with a \<open>Location\<close> is then answered by sending the browser there,
  with all the \<open>Set-Cookie\<close> values of that response; in every other case the check has failed and the request is let
  through.\<close>

theorem no_login_no_database:
  assumes "\<forall>resp. endpointURL c \<noteq> [] \<and> url_error e (endpointURL c) = None
      \<and> round_trip e (length (http_sent w)) (login_request c req) = Inr resp \<and> rs_status resp = 200
    \<longrightarrow> header_get (rs_header resp) ''X-Authentik-Email'' = []"
  shows "\<exists>sent recs. ext_check (wired e c s lg) req w =
    ((if endpointURL c = [] \<or> url_error e (endpointURL c) \<noteq> None then okResponse
      else case round_trip e (length (http_sent w)) (login_request c req) of
          Inl m \<Rightarrow> okResponse
        | Inr resp \<Rightarrow>
            if rs_status resp = 302 \<and> header_get (rs_header resp) ''Location'' \<noteq> []
            then deniedRedirectTo (header_get (rs_header resp) ''Location'')
              (case rs_header resp ''Set-Cookie'' of Some cs \<Rightarrow> cs | None \<Rightarrow> [])
            else okResponse, None),
     w\<lparr>http_sent := sent, logs := recs\<rparr>)"
proof -
  have up: "log_at l lv m a v = v\<lparr>logs := logs (log_at l lv m a v)\<rparr>" for l lv m a v by (simp add: log_at_def)
  let ?check = "Check e c (cookie_of req) (host_of req) (proto_of req) (uri_of req) (noted (wired e c s lg) req w)"
  obtain r w2 where a: "?check = (r, w2)" by fastforce
  then have "w2 = snd ?check" by simp
  then have w2: "w2 = w\<lparr>http_sent := http_sent w2, logs := logs w2\<rparr>"
    by (intro world.equality) simp_all
  have to: "\<exists>sent recs. log_at l lv m al w2 = w\<lparr>http_sent := sent, logs := recs\<rparr>" for l lv m al
    by (subst up, subst w2) auto
  have passes: "\<exists>sent recs. ext_check (wired e c s lg) req w = ((okResponse, None), w\<lparr>http_sent := sent, logs := recs\<rparr>)"
    if "r = Inl err" for err using a that to by (simp add: ext_check_eq)
  show ?thesis
  proof (cases "endpointURL c = [] \<or> url_error e (endpointURL c) \<noteq> None")
    case True
    then obtain err where "r = Inl err"
      using check_result(1) [OF True, of "cookie_of req" "host_of req" "proto_of req" "uri_of req" "noted (wired e c s lg) req w"] a
      by auto
    from passes [OF this] True show ?thesis by (simp only: if_True)
  next
    case False
    then have ok: "endpointURL c \<noteq> []" "url_error e (endpointURL c) = None" by simp_all
    have r: "r = (case round_trip e (length (http_sent w)) (login_request c req) of
        Inl m \<Rightarrow> Inl (Wrapped ''authentik forward auth: request failed: '' (ErrorText m) '''') | Inr resp \<Rightarrow> read_response resp)"
      using check_result(2) [OF ok, of "cookie_of req" "host_of req" "proto_of req" "uri_of req" "noted (wired e c s lg) req w"] a
      by (simp add: login_request_def)
    show ?thesis
    proof (cases "round_trip e (length (http_sent w)) (login_request c req)")
      case (Inl m)
      with r passes ok show ?thesis by simp
    next
      case (Inr resp)
      show ?thesis
      proof (cases rule: read_response_cases [of resp])
        case login
        with assms ok Inr show ?thesis by blast
      next
        case redirect
        with r Inr a to ok show ?thesis by (simp add: ext_check_eq)
      next
        case (unusable err)
        with r Inr passes [of err] ok show ?thesis by auto
      qed
    qed
  qed
qed

lemma no_login_no_database_witness:
  "\<exists>sent recs. ext_check (wired (sample_env\<lparr>round_trip := (\<lambda>n rq. Inr authentik_login)\<rparr>) sample_client sample_store LevelInfo)
      sample_request session_world = ((deniedRedirectTo ''https://auth.example.com/login''
        [''authentik_proxy_a=1'', ''authentik_proxy_b=2''], None), session_world\<lparr>http_sent := sent, logs := recs\<rparr>)"
  using no_login_no_database [of sample_client "sample_env\<lparr>round_trip := (\<lambda>n rq. Inr authentik_login)\<rparr>" session_world
      sample_request sample_store LevelInfo]
  by (simp add: authentik_login_def sample_client_def NewClient_def sample_env_def header_get_def)

text \<open>When Authentik answers 302 the browser is sent to its \<open>Location\<close> with every
  one of its \<open>Set-Cookie\<close> values, in order and as a header of its own, even when the request
  already carries the Ghost session cookie; the database is not consulted.\<close>

lemma login_redirect:
  assumes "endpointURL c \<noteq> []" "url_error e (endpointURL c) = None"
    and "round_trip e (length (http_sent w)) (login_request c req) = Inr resp" "rs_status resp = 302"
    and "header_get (rs_header resp) ''Location'' = loc" "loc \<noteq> []" "rs_header resp ''Set-Cookie'' = Some cks"
  shows "fst (ext_check (wired e c s lg) req w) = (\<lparr>cr_status = PermissionDenied, cr_http = DeniedResponse 302
      (\<lparr>hv_key = ''location'', hv_value = loc, hv_action = OVERWRITE_IF_EXISTS_OR_ADD\<rparr>
       # map (\<lambda>c. \<lparr>hv_key = ''set-cookie'', hv_value = c, hv_action = APPEND_IF_EXISTS_OR_ADD\<rparr>) cks)\<rparr>, None)
    \<and> sql_calls (snd (ext_check (wired e c s lg) req w)) = sql_calls w"
  using assms
  by (simp add: ext_check_eq Check_def new_request_def http_do_def read_response_def login_request_def
      authentik_request_def deniedRedirectTo_def Let_def)

lemma login_redirect_witness:
  "fst (ext_check (wired (sample_env\<lparr>round_trip := (\<lambda>n rq. Inr authentik_login)\<rparr>) sample_client sample_store LevelInfo)
      (request_with [''cookie'' \<mapsto> ''ghost-admin-api-session=x'']) session_world)
   = (\<lparr>cr_status = PermissionDenied, cr_http = DeniedResponse 302
      [\<lparr>hv_key = ''location'', hv_value = ''https://auth.example.com/login'', hv_action = OVERWRITE_IF_EXISTS_OR_ADD\<rparr>,
       \<lparr>hv_key = ''set-cookie'', hv_value = ''authentik_proxy_a=1'', hv_action = APPEND_IF_EXISTS_OR_ADD\<rparr>,
       \<lparr>hv_key = ''set-cookie'', hv_value = ''authentik_proxy_b=2'', hv_action = APPEND_IF_EXISTS_OR_ADD\<rparr>]\<rparr>, None)"
  using login_redirect [of sample_client "sample_env\<lparr>round_trip := (\<lambda>n rq. Inr authentik_login)\<rparr>" session_world
      "request_with [''cookie'' \<mapsto> ''ghost-admin-api-session=x'']" authentik_login "''https://auth.example.com/login''"
      "[''authentik_proxy_a=1'', ''authentik_proxy_b=2'']" sample_store LevelInfo]
  by (simp add: sample_client_def NewClient_def sample_env_def authentik_login_def header_get_def)

text \<open>What the whole RPC sends is what \<open>Check\<close> sends.\<close>

lemma rpc_http: "http_sent (snd (ext_check (wired e c s lg) req w)) = http_sent (snd (Check e c (cookie_of req)
      (host_of req) (proto_of req) (uri_of req) (noted (wired e c s lg) req w)))"
proof -
  have ens: "EnsureSession (mariadb_service e s lg) ck em v = (r, v') \<Longrightarrow> http_sent v' = http_sent v" for ck em v r v'
    using EnsureSession_http [of e s lg ck em v] by simp
  show ?thesis
  proof (cases rule: ext_check_cases [of "wired e c s lg" req w])
    case (service_error em cks w2 err w3)
    then show ?thesis using ens [of "cookie_of req" em w2 "Inl err" w3] by simp
  next
    case (pass em cks w2 w3)
    then show ?thesis using ens [of "cookie_of req" em w2 "Inr []" w3] by simp
  next
    case (plant em cks w2 c w3)
    then show ?thesis using ens [of "cookie_of req" em w2 "Inr c" w3] by simp
  qed simp_all
qed

text \<open>The one question, spelt out.\<close>

lemma login_request_eq:
  "login_request c req = (let h = header_at (request_headers req) in
     \<lparr>rq_method = ''GET'', rq_url = endpointURL c,
       rq_header = (if h ''cookie'' = [] then Map.empty else [''Cookie'' \<mapsto> [h ''cookie'']])
         (''X-Forwarded-Host'' \<mapsto> [if h '':authority'' = [] then h ''host'' else h '':authority''],
          ''X-Forwarded-Proto'' \<mapsto> [if h '':scheme'' = [] then h ''x-forwarded-proto'' else h '':scheme''],
          ''X-Forwarded-Uri'' \<mapsto> [h '':path''])\<rparr>)"
  by (simp only: login_request_def authentik_request_def forward_headers_eq cookie_of_def host_of_def proto_of_def uri_of_def
      Let_def firstNonEmpty.simps) (simp cong: if_cong)

text \<open>The retry after a planted cookie.  A browser keeps what stands before the first semicolon of
  the header and sends it back, alone or after its other cookies.\<close>

lemma cookie_name_token: "is_token ghostSessionCookieName"
  by (simp add: is_token_def is_token_char_def ghostSessionCookieName_def Let_def)

lemma signed_chars:
  assumes "list_all url_safe i" "c \<in> set (signCookie i k)"
  shows "is_alnum c \<or> c \<in> {CHR '':'', CHR ''.'', CHR ''-'', CHR ''_'', CHR ''+'', CHR ''/''}"
proof -
  consider "c \<in> set ''s:''" | "c \<in> set i" | "c = CHR ''.''" | "c \<in> set (cookie_sig i k)"
    using assms(2) by (auto simp: signCookie_eq)
  then show ?thesis
  proof cases
    case 1
    then have "c = CHR ''s'' \<or> c = CHR '':''" by simp
    then show ?thesis by (elim disjE) (simp_all add: is_alnum_def Let_def)
  next
    case 2
    with assms(1) have "url_safe c" by (simp add: list_all_iff)
    then have "is_alnum c \<or> c = CHR ''-'' \<or> c = CHR ''_''" by (simp only: url_safe_def)
    then show ?thesis by blast
  next
    case 4
    then have "is_alnum c \<or> c = CHR ''+'' \<or> c = CHR ''/''" by (rule cookie_sig_set)
    then show ?thesis by blast
  qed simp
qed

lemma clean_char:
  "is_alnum c \<or> c \<in> {CHR '':'', CHR ''.'', CHR ''-'', CHR ''_'', CHR ''+'', CHR ''/''}
   \<Longrightarrow> valid_cookie_value_byte c \<and> byte c \<noteq> 32"
  by (elim disjE insertE) (simp_all add: valid_cookie_value_byte_def is_alnum_def Let_def, linarith)

lemma clean_signed: "list_all url_safe i \<Longrightarrow> clean_value (signCookie i k)"
  using clean_char [OF signed_chars [of i]] by (auto simp: clean_value_def list_all_iff)

lemma header_pair:
  assumes "clean_value v"
  shows "takeWhile (\<lambda>c. c \<noteq> CHR '';'') (buildSetCookieHeader s v) = ghostSessionCookieName @ ''='' @ v"
proof -
  have "CHR '';'' \<notin> set v" using clean_value_facts(2) [OF assms] by blast
  moreover have "CHR '';'' \<notin> set ghostSessionCookieName" by (simp add: ghostSessionCookieName_def)
  ultimately have "CHR '';'' \<notin> set (ghostSessionCookieName @ ''='' @ v)" by simp
  from takeWhile_sep [OF this, of "'' Path=/ghost; HttpOnly; Secure; SameSite=None; Max-Age='' @ int_dec (sint (sessionMaxAgeSecs s))"]
  show ?thesis by (simp add: buildSetCookieHeader_def)
qed

lemma planted_is_found:
  assumes "list_all url_safe i" "pair = takeWhile (\<lambda>c. c \<noteq> CHR '';'') (buildSetCookieHeader s (signCookie i k))"
    and "ck = pair \<or> ck = others @ ''; '' @ pair" "count_list ck CHR '';'' < default_cookie_max"
  shows "hasGhostSessionCookie ck"
proof -
  have pair: "pair = ghostSessionCookieName @ CHR ''='' # signCookie i k"
    unfolding assms(2) header_pair [OF clean_signed [OF assms(1)]] by simp
  then have "ck \<noteq> []" using assms(3) by auto
  moreover have "request_cookie [ck] ghostSessionCookieName \<noteq> None"
    by (rule planted_cookie_found [OF cookie_name_token clean_signed [OF assms(1)] _ assms(4)])
      (use assms(3) pair in auto)
  ultimately show ?thesis by (simp add: hasGhostSessionCookie_def)
qed

text \<open>Once the server has planted a cookie for a session whose id is URL-safe, a later request that
  brings the cookie back, alone or after fewer than 3000 others, and that Authentik knows as
  logged in, is let through at once and no session is touched.\<close>

lemma retry_passes:
  assumes "fst (ext_check (wired e c s lg) req w)
      = (deniedRedirectWithCookie ghostAdminPath (buildSetCookieHeader (wired e c s lg) (signCookie i (dbHash s))), None)"
    and "list_all url_safe i"
    and "pair = takeWhile (\<lambda>ch. ch \<noteq> CHR '';'') (buildSetCookieHeader (wired e c s lg) (signCookie i (dbHash s)))"
    and "cookie_of req2 = pair \<or> cookie_of req2 = others @ ''; '' @ pair"
    and "count_list (cookie_of req2) CHR '';'' < default_cookie_max"
    and "endpointURL c \<noteq> []" "url_error e (endpointURL c) = None"
    and "round_trip e (length (http_sent w2)) (login_request c req2) = Inr resp" "rs_status resp = 200"
    and "header_get (rs_header resp) ''X-Authentik-Email'' \<noteq> []"
  shows "fst (ext_check (wired e c s lg) req2 w2) = (okResponse, None)
    \<and> db (snd (ext_check (wired e c s lg) req2 w2)) = db w2"
proof -
  have "hasGhostSessionCookie (cookie_of req2)" using assms(2-5) by (rule planted_is_found)
  then show ?thesis
    using assms(6-)
    by (simp add: ext_check_eq Check_def new_request_def http_do_def read_response_def login_request_def
        authentik_request_def EnsureSession_def Let_def)
qed

lemma retry_passes_witness:
  "fst (ext_check (wired sample_env sample_client sample_store LevelInfo)
      (request_with [''cookie'' \<mapsto> ghostSessionCookieName @ ''='' @ signCookie ''old'' ''k3y'']) session_world) = (okResponse, None)"
proof -
  define req where "req = request_with [''cookie'' \<mapsto> ghostSessionCookieName @ ''='' @ signCookie ''old'' ''k3y'']"
  have safe: "list_all url_safe ''old''" by (simp add: url_safe_def is_alnum_def Let_def)
  have ck: "cookie_of req = ghostSessionCookieName @ ''='' @ signCookie ''old'' ''k3y''"
    by (simp add: req_def cookie_of_def header_at_def)
  have "CHR '';'' \<notin> set (signCookie ''old'' ''k3y'')" using clean_value_facts(2) [OF clean_signed [OF safe]] by blast
  then have few: "count_list (cookie_of req) CHR '';'' < default_cookie_max"
    unfolding ck by (simp add: ghostSessionCookieName_def default_cookie_max_def count_list_0_iff)
  have "fst (ext_check (wired sample_env sample_client sample_store LevelInfo) req session_world) = (okResponse, None)
    \<and> db (snd (ext_check (wired sample_env sample_client sample_store LevelInfo) req session_world)) = db session_world"
  proof (rule retry_passes [OF _ safe refl])
    show "fst (ext_check (wired sample_env sample_client sample_store LevelInfo) sample_request session_world)
      = (deniedRedirectWithCookie ghostAdminPath (buildSetCookieHeader (wired sample_env sample_client sample_store LevelInfo)
          (signCookie ''old'' (dbHash sample_store))), None)" by (simp add: sample_plant)
    show "cookie_of req = takeWhile (\<lambda>ch. ch \<noteq> CHR '';'') (buildSetCookieHeader
        (wired sample_env sample_client sample_store LevelInfo) (signCookie ''old'' (dbHash sample_store)))
      \<or> cookie_of req = [] @ ''; '' @ takeWhile (\<lambda>ch. ch \<noteq> CHR '';'') (buildSetCookieHeader
        (wired sample_env sample_client sample_store LevelInfo) (signCookie ''old'' (dbHash sample_store)))"
      unfolding header_pair [OF clean_signed [OF safe]] ck by simp
    show "count_list (cookie_of req) CHR '';'' < default_cookie_max" by (rule few)
    show "round_trip sample_env (length (http_sent session_world)) (login_request sample_client req) = Inr authentik_ok"
      by (simp add: sample_env_def)
  qed (simp_all add: sample_client_def NewClient_def sample_env_def authentik_ok_def header_get_def)
  then show ?thesis by (simp add: req_def)
qed

text \<open>Every row of the table has a session id the cookie can carry: 32 URL-safe characters, as
  \<open>uid-safe\<close> makes them for Ghost and \<open>generateSessionID\<close> for this program.\<close>

definition ids_clean :: "database \<Rightarrow> bool" where
  "ids_clean d \<longleftrightarrow> list_all (\<lambda>i. length i = 32 \<and> list_all url_safe i) (map sr_session_id (sessions d))"

lemma find_ids_clean: "ids_clean (db (snd (find_by_user_id e s u w))) \<longleftrightarrow> ids_clean (db w)"
  by (simp only: ids_clean_def find_by_user_id_ids)

lemma create_ids_clean: "ids_clean (db w) \<Longrightarrow> ids_clean (db (snd (create_session e s u w)))"
proof (cases rule: create_cases [of e w s u])
  case (created sid oid)
  then show "ids_clean (db w) \<Longrightarrow> ?thesis"
    using session_id_format [of e w sid] by (simp add: ids_clean_def created_row_def)
next
  case (insert_failed m sid oid)
  then show "ids_clean (db w) \<Longrightarrow> ?thesis"
    using session_id_format [of e w sid] by (auto simp: ids_clean_def created_row_def)
qed simp

lemma ensure_ids_clean:
  assumes "ids_clean (db w)"
  shows "ids_clean (db (snd (EnsureSession (mariadb_service e s lg) ck em w)))"
proof -
  have user: "find_by_email e em (asked (mariadb_service e s lg) em w) = (r, w2) \<Longrightarrow> ids_clean (db w2)" for r w2
    using find_by_email_frame(1) [of e em "asked (mariadb_service e s lg) em w"] assms by simp
  have look: "ids_clean (db w3)" if "find_by_user_id e s u w2 = (r, w3)" "ids_clean (db w2)" for u w2 r w3
    using find_ids_clean [of e s u w2] that by simp
  have new: "ids_clean (db w4)" if "create_session e s u w3 = (r, w4)" "ids_clean (db w3)" for u w3 r w4
    using create_ids_clean [of w3 e s u] that by simp
  show ?thesis
  proof (cases rule: ensure_cases [of ck "mariadb_service e s lg" em w])
    case fast
    then show ?thesis using assms by simp
  next
    case (no_user err w2)
    then show ?thesis using user [of "Inl err" w2] by simp
  next
    case (inactive usr w2)
    then show ?thesis using user [of "Inr usr" w2] by simp
  next
    case (lookup_failed usr w2 err w3)
    then show ?thesis using look [of "u_ID usr" w2 "Inl err" w3] user [of "Inr usr" w2] by simp
  next
    case (reused usr w2 ses w3)
    then show ?thesis using look [of "u_ID usr" w2 "Inr (Some ses)" w3] user [of "Inr usr" w2] by simp
  next
    case (create_failed usr w2 w3 err w4)
    then show ?thesis
      using new [of "u_ID usr" w3 "Inl err" w4] look [of "u_ID usr" w2 "Inr None" w3] user [of "Inr usr" w2] by simp
  next
    case (created usr w2 w3 ses w4)
    then show ?thesis
      using new [of "u_ID usr" w3 "Inr ses" w4] look [of "u_ID usr" w2 "Inr None" w3] user [of "Inr usr" w2] by simp
  qed
qed

text \<open>Every RPC, whatever it answers and whichever statement or source fails, keeps the
  sessions table well-formed: each session id is 32 URL-safe characters, so that its signature
  is a valid cookie value.\<close>

lemma rpc_keeps_ids_clean:
  assumes "ids_clean (db w)"
  shows "ids_clean (db (snd (ext_check (wired e c s lg) req w)))
    \<and> (\<forall>row \<in> set (sessions (db (snd (ext_check (wired e c s lg) req w)))). clean_value (signCookie (sr_session_id row) (dbHash s)))"
proof -
  have check: "db w2 = db w"
    if "Check e c (cookie_of req) (host_of req) (proto_of req) (uri_of req) (noted (wired e c s lg) req w) = (r, w2)" for r w2
    using Check_frame(1) [of e c "cookie_of req" "host_of req" "proto_of req" "uri_of req" "noted (wired e c s lg) req w"] that
    by simp
  have ens: "ids_clean (db w3)" if "EnsureSession (mariadb_service e s lg) ck em w2 = (r, w3)" "db w2 = db w" for ck em w2 r w3
    using ensure_ids_clean [of w2 e s lg ck em] assms that by simp
  have "ids_clean (db (snd (ext_check (wired e c s lg) req w)))"
  proof (cases rule: ext_check_cases [of "wired e c s lg" req w])
    case (authentik_error err w2)
    then show ?thesis using check [of "Inl err" w2] assms by simp
  next
    case (login em loc cks w2)
    then show ?thesis using check [of "Inr (em, loc, cks)" w2] assms by simp
  next
    case (service_error em cks w2 err w3)
    then show ?thesis using ens [of "cookie_of req" em w2 "Inl err" w3] check [of "Inr (em, [], cks)" w2] by simp
  next
    case (pass em cks w2 w3)
    then show ?thesis using ens [of "cookie_of req" em w2 "Inr []" w3] check [of "Inr (em, [], cks)" w2] by simp
  next
    case (plant em cks w2 ck w3)
    then show ?thesis using ens [of "cookie_of req" em w2 "Inr ck" w3] check [of "Inr (em, [], cks)" w2] by simp
  qed
  then show ?thesis using clean_signed by (auto simp: ids_clean_def list_all_iff)
qed

lemma rpc_keeps_ids_clean_witness:
  "ids_clean (db (snd (ext_check (wired sample_env sample_client sample_store LevelInfo) sample_request sample_world)))"
proof -
  have "ids_clean (db sample_world)" by (simp add: ids_clean_def sample_world_def world_of_def sample_db_def)
  from rpc_keeps_ids_clean [OF this] show ?thesis by blast
qed

end
