(* ===== verification/Interleaving.thy ===== *)
theory Interleaving
  imports ExtAuth
begin

text \<open>
  Requests that overlap.  The gRPC server runs every \<open>Check\<close> on a goroutine of its own and the
  adapters hold no lock or transaction, so between two SQL statements of one request another
  may run.  \<open>advance\<close> is \<open>EnsureSession\<close> cut at its statements: \<open>phases_alone\<close> shows that a request
  that runs alone does in its phases what \<open>EnsureSession\<close> does; \<open>sys_step\<close> lets any request take
  its next phase.
\<close>

datatype phase =
    Arrived string string
  | Verify string
  | LookUp string user
  | Refresh string user session_row
  | Insert string user
  | Finished "go_error + string"

fun advance :: "environment \<Rightarrow> mariadb_store \<Rightarrow> logger \<Rightarrow> phase \<Rightarrow> world \<Rightarrow> phase \<times> world" where
  "advance e s lg (Arrived ck em) w =
     (if hasGhostSessionCookie ck then
        (Finished (Inr []), log_at lg LevelDebug ''ghost-admin-api-session cookie present, passing through'' [] w)
      else (Verify em, log_at lg LevelInfo ''no ghost session cookie found, verifying staff membership''
              [(''email'', AString em)] w))"
| "advance e s lg (Verify em) w =
     (let (r, w1) = find_by_email e em w in
      (case r of
         Inl err \<Rightarrow> if errors_is err ErrUserNotFound
           then Finished (Inl (Wrapped [] (Sentinel ErrUnauthorized) ('': '' @ em)))
           else Finished (Inl (Wrapped ''user repository: '' err []))
       | Inr usr \<Rightarrow> if IsActive usr then LookUp em usr
           else Finished (Inl (Wrapped [] (Sentinel ErrUnauthorized) ('': status='' @ u_Status usr))), w1))"
| "advance e s lg (LookUp em usr) w =
     (let (now0, w1) = time_now e w;
          (r, w2) = run_sql e (select_session e (u_ID usr) (add_days now0 (sint (- sessionMaxAge s)))) w1
      in (case r of
            Inl err \<Rightarrow> if errors_is err SqlErrNoRows then Insert em usr
              else Finished (Inl (Wrapped ''session store lookup: '' (Wrapped ''mariadb: querying sessions: '' err []) []))
          | Inr row \<Rightarrow> Refresh em usr row, w2))"
| "advance e s lg (Refresh em usr row) w =
     (let (r, w1) = buildSessionData e (u_ID usr) (sessionMaxAge s) w in
      case r of
        Inl err \<Rightarrow> (Finished (Inl (Wrapped ''session store lookup: '' (Wrapped ''mariadb: refreshing session_data: '' err []) [])), w1)
      | Inr data \<Rightarrow>
          (let (now, w2) = time_now e w1;
               (r2, w3) = run_sql e (update_session e data now (sr_session_id row)) w2
           in case r2 of
                Inl err \<Rightarrow> (Finished (Inl (Wrapped ''session store lookup: '' (Wrapped ''mariadb: updating session_data: '' err []) [])), w3)
              | Inr _ \<Rightarrow>
                  (Finished (Inr (signCookie (sr_session_id row) (dbHash s))),
                   log_at lg LevelDebug ''signed cookie for manual browser test''
                     [(''cookie_value'', AString (signCookie (sr_session_id row) (dbHash s)))]
                   (log_at lg LevelInfo ''reusing existing ghost session'' [(''user_id'', AString (u_ID usr))] w3))))"
| "advance e s lg (Insert em usr) w =
     (let (r, w1) = create_session e s (u_ID usr) w in
      case r of
        Inl err \<Rightarrow> (Finished (Inl (Wrapped ''session store create: '' err [])), w1)
      | Inr ses \<Rightarrow>
          (Finished (Inr (s_SignedCookieValue ses)),
           log_at lg LevelDebug ''signed cookie for manual browser test''
             [(''cookie_value'', AString (s_SignedCookieValue ses))]
           (log_at lg LevelInfo ''created ghost admin session''
             [(''user_id'', AString (u_ID usr)), (''email'', AString em)] w1)))"
| "advance e s lg (Finished r) w = (Finished r, w)"

fun advances :: "nat \<Rightarrow> environment \<Rightarrow> mariadb_store \<Rightarrow> logger \<Rightarrow> phase \<Rightarrow> world \<Rightarrow> phase \<times> world" where
  "advances 0 e s lg p w = (p, w)"
| "advances (Suc n) e s lg p w = (let (q, w') = advance e s lg p w in advances n e s lg q w')"

lemma advances_finished [simp]: "advances n e s lg (Finished r) w = (Finished r, w)"
  by (induction n) simp_all

text \<open>The lookup is the two phases that follow the user's verification.\<close>

lemma lookup_phases:
  "(case find_by_user_id e s (u_ID usr) w of
      (Inl err, w') \<Rightarrow> (Finished (Inl (Wrapped ''session store lookup: '' err [])), w')
    | (Inr (Some ses), w') \<Rightarrow> (Finished (Inr (s_SignedCookieValue ses)),
         log_at lg LevelDebug ''signed cookie for manual browser test'' [(''cookie_value'', AString (s_SignedCookieValue ses))]
         (log_at lg LevelInfo ''reusing existing ghost session'' [(''user_id'', AString (u_ID usr))] w'))
    | (Inr None, w') \<Rightarrow> advance e s lg (Insert em usr) w')
   = (let (p, w1) = advance e s lg (LookUp em usr) w in advance e s lg p w1)"
proof -
  obtain now w1 where n: "time_now e w = (now, w1)" by fastforce
  obtain r w2 where r: "run_sql e (select_session e (u_ID usr) (add_days now (sint (- sessionMaxAge s)))) w1 = (r, w2)"
    by fastforce
  show ?thesis
  proof (cases r)
    case (Inl err)
    then show ?thesis by (simp add: find_by_user_id_def n r)
  next
    case (Inr row)
    then show ?thesis by (simp add: find_by_user_id_def n r buildSessionData_def Let_def split_def split: sum.split)
  qed
qed

lemma phases_alone:
  "advances 4 e s lg (Arrived ck em) w
     = (let (r, w') = EnsureSession (mariadb_service e s lg) ck em w in (Finished r, w'))"
proof (cases "hasGhostSessionCookie ck")
  case True
  then show ?thesis by (simp add: EnsureSession_def numeral_eq_Suc)
next
  case False
  let ?w1 = "log_at lg LevelInfo ''no ghost session cookie found, verifying staff membership'' [(''email'', AString em)] w"
  obtain r w2 where r: "find_by_email e em ?w1 = (r, w2)" by fastforce
  have four: "advances 4 e s lg (Arrived ck em) w = advances 2 e s lg (fst (advance e s lg (Verify em) ?w1)) w2"
    using False r by (simp add: numeral_eq_Suc split_def)
  show ?thesis
  proof (cases r)
    case (Inl err)
    with False r show ?thesis unfolding four by (simp add: EnsureSession_def Let_def)
  next
    case (Inr usr)
    show ?thesis
    proof (cases "IsActive usr")
      case inactive: False
      with False r Inr show ?thesis unfolding four by (simp add: EnsureSession_def Let_def)
    next
      case True
      have "advances 4 e s lg (Arrived ck em) w = (let (p, w1) = advance e s lg (LookUp em usr) w2 in advance e s lg p w1)"
        unfolding four using True r Inr by (simp add: numeral_eq_Suc split_def)
      also note lookup_phases [symmetric]
      finally show ?thesis
        using False r Inr True by (simp add: EnsureSession_def Let_def split_def split: sum.split option.split)
    qed
  qed
qed
subsection \<open>Interleavings\<close>

inductive sys_step :: "environment \<Rightarrow> mariadb_store \<Rightarrow> logger \<Rightarrow> phase list \<times> world \<Rightarrow> phase list \<times> world \<Rightarrow> bool"
  for e s lg where
  run_phase: "i < length ths \<Longrightarrow> advance e s lg (ths ! i) w = (p, w') \<Longrightarrow> sys_step e s lg (ths, w) (ths[i := p], w')"

inductive_cases sys_step_elim: "sys_step e s lg (ths, w) (ths', w')"

text \<open>No step deletes a row or changes its ids or owner, and none touches the users.\<close>

definition grows :: "database \<Rightarrow> database \<Rightarrow> bool" where
  "grows d d' \<longleftrightarrow> users d' = users d
     \<and> (\<forall>r \<in> set (sessions d). \<exists>r' \<in> set (sessions d'). sr_session_id r' = sr_session_id r \<and> sr_user_id r' = sr_user_id r)"

lemma grows_refl [simp]: "grows d d"
  by (auto simp: grows_def)

lemma grows_trans: "grows a b \<Longrightarrow> grows b c \<Longrightarrow> grows a c"
  unfolding grows_def by metis

lemma grows_append: "users d' = users d \<Longrightarrow> sessions d' = sessions d @ rows \<Longrightarrow> grows d d'"
  by (auto simp: grows_def)

lemma grows_map:
  assumes "users d' = users d" "sessions d' = map f (sessions d)"
    and "\<And>r. sr_session_id (f r) = sr_session_id r \<and> sr_user_id (f r) = sr_user_id r"
  shows "grows d d'"
  unfolding grows_def assms(1,2) using assms(3) by auto

lemma grows_update: "grows d (snd (update_session e data now sid t d))"
  by (rule grows_map [where f = "\<lambda>r. if text_eq e (sr_session_id r) sid
        then r\<lparr>sr_session_data := data, sr_updated_at := col_time e now\<rparr> else r"])
    (simp_all add: update_session_def)

definition staff :: "environment \<Rightarrow> database \<Rightarrow> string \<Rightarrow> string \<Rightarrow> bool" where
  "staff e d em uid \<longleftrightarrow> (\<exists>u \<in> set (users d). text_eq e (ur_email u) em \<and> ur_id u = uid \<and> ur_status u = ''active'')"

definition owned :: "environment \<Rightarrow> database \<Rightarrow> string \<Rightarrow> string \<Rightarrow> bool" where
  "owned e d sid uid \<longleftrightarrow> (\<exists>r \<in> set (sessions d). sr_session_id r = sid \<and> (sr_user_id r = uid \<or> text_eq e (sr_user_id r) uid))"

text \<open>What the phases of a request that came with email \<open>em\<close> know of the tables.\<close>

fun phase_ok :: "environment \<Rightarrow> mariadb_store \<Rightarrow> database \<Rightarrow> string \<Rightarrow> phase \<Rightarrow> bool" where
  "phase_ok e s d em (Arrived ck em') \<longleftrightarrow> em' = em"
| "phase_ok e s d em (Verify em') \<longleftrightarrow> em' = em"
| "phase_ok e s d em (LookUp em' usr) \<longleftrightarrow> em' = em \<and> staff e d em (u_ID usr)"
| "phase_ok e s d em (Refresh em' usr row) \<longleftrightarrow> em' = em \<and> staff e d em (u_ID usr) \<and> owned e d (sr_session_id row) (u_ID usr)"
| "phase_ok e s d em (Insert em' usr) \<longleftrightarrow> em' = em \<and> staff e d em (u_ID usr)"
| "phase_ok e s d em (Finished (Inl err)) \<longleftrightarrow> True"
| "phase_ok e s d em (Finished (Inr c)) \<longleftrightarrow> c = [] \<or>
     (\<exists>uid sid. staff e d em uid \<and> owned e d sid uid \<and> c = signCookie sid (dbHash s))"

lemma cookie_phase:
  "staff e d em uid \<Longrightarrow> owned e d sid uid \<Longrightarrow> phase_ok e s d em (Finished (Inr (signCookie sid (dbHash s))))"
  by auto

lemma staff_grows: "staff e d em uid \<Longrightarrow> grows d d' \<Longrightarrow> staff e d' em uid"
  by (simp add: staff_def grows_def)

lemma owned_grows: "owned e d sid uid \<Longrightarrow> grows d d' \<Longrightarrow> owned e d' sid uid"
  unfolding owned_def grows_def by metis

lemma phase_ok_grows: "phase_ok e s d em p \<Longrightarrow> grows d d' \<Longrightarrow> phase_ok e s d' em p"
proof -
  assume g: "grows d d'"
  show "phase_ok e s d em p \<Longrightarrow> phase_ok e s d' em p"
    by (cases "(e, s, d, em, p)" rule: phase_ok.cases)
      (use staff_grows [OF _ g] owned_grows [OF _ g] in \<open>auto; blast\<close>)+
qed

lemma run_sql_grows:
  "(\<And>t d. grows d (snd (stmt t d))) \<Longrightarrow> grows (db w) (db (snd (run_sql e stmt w)))"
  using run_sql_db [of e stmt w] by auto

lemma create_grows: "grows (db w) (db (snd (create_session e s u w)))"
  by (cases rule: create_cases [of e w s u]) (auto intro: grows_append)

lemma time_now_db [simp]: "time_now e w = (n, w1) \<Longrightarrow> db w1 = db w"
  using time_now_frame(1) [of e w] by simp

lemma lookup_ok:
  assumes "staff e (db w) em (u_ID usr)" "advance e s lg (LookUp em usr) w = (p', w')"
  shows "phase_ok e s (db w') em p'" "db w' = db w"
proof -
  obtain now w1 where n: "time_now e w = (now, w1)" by fastforce
  let ?stmt = "select_session e (u_ID usr) (add_days now (sint (- sessionMaxAge s)))"
  let ?live = "filter (\<lambda>r. text_eq e (sr_user_id r) (u_ID usr)
    \<and> arg_time e (add_days now (sint (- sessionMaxAge s))) \<le> sr_created_at r) (sessions (db w))"
  obtain r w2 where r: "run_sql e ?stmt w1 = (r, w2)" by fastforce
  have w2: "db w2 = db w" using run_sql_read_only [of ?stmt e w1] r n by simp
  have "owned e (db w) (sr_session_id row) (u_ID usr)" if "r = Inr row" for row
  proof -
    have "fst (run_sql e ?stmt w1) = Inr row" using r that by simp
    from run_sql_result(2) [OF this] n have "limit_one (tie e (sql_calls w1)) (newest ?live) = Inr row"
      by (simp add: select_session_def)
    then have "row \<in> set (newest ?live)" by (rule limit_one_in)
    from subsetD [OF newest_subset this] show ?thesis by (auto simp: owned_def)
  qed
  with assms n r w2 show "phase_ok e s (db w') em p'" "db w' = db w" by (cases r; auto split: if_splits)+
qed

lemma refresh_ok:
  assumes "staff e (db w) em (u_ID usr)" "owned e (db w) (sr_session_id row) (u_ID usr)"
    and "advance e s lg (Refresh em usr row) w = (p', w')"
  shows "phase_ok e s (db w') em p'" "grows (db w) (db w')"
proof -
  obtain now0 w1 where n: "time_now e w = (now0, w1)" by fastforce
  obtain now w2 where n2: "time_now e w1 = (now, w2)" by fastforce
  let ?stmt = "update_session e (marshal_session_data (session_data_at now0 (u_ID usr) (sessionMaxAge s))) now (sr_session_id row)"
  obtain r w3 where r: "run_sql e ?stmt w2 = (r, w3)" by fastforce
  have "grows (db w2) (db (snd (run_sql e ?stmt w2)))" by (rule run_sql_grows) (rule grows_update)
  with n n2 r have g: "grows (db w) (db w3)" by simp
  have w': "db w' = db w3" using assms(3) n n2 r by (cases r) (auto simp: buildSessionData_def)
  with g show "grows (db w) (db w')" by simp
  have "phase_ok e s (db w3) em (Finished (Inr (signCookie (sr_session_id row) (dbHash s))))"
    by (rule cookie_phase) (rule staff_grows [OF assms(1) g], rule owned_grows [OF assms(2) g])
  with assms(3) n n2 r w' show "phase_ok e s (db w') em p'"
    by (cases r) (auto simp: buildSessionData_def simp del: phase_ok.simps(7))
qed

lemma insert_ok:
  assumes "staff e (db w) em (u_ID usr)" "advance e s lg (Insert em usr) w = (p', w')"
  shows "phase_ok e s (db w') em p'" "grows (db w) (db w')"
proof -
  obtain r w1 where r: "create_session e s (u_ID usr) w = (r, w1)" by fastforce
  have g: "grows (db w) (db w1)" using create_grows [of w e s "u_ID usr"] r by simp
  have w': "db w' = db w1" using assms(2) r by (cases r) auto
  with g show "grows (db w) (db w')" by simp
  show "phase_ok e s (db w') em p'"
  proof (cases r)
    case (Inl err)
    with assms(2) r show ?thesis by auto
  next
    case (Inr ses)
    with r have "create_session e s (u_ID usr) w = (Inr ses, w1)" by simp
    then obtain row where "sessions (db w1) = sessions (db w) @ [row]" "sr_user_id row = u_ID usr"
      "sr_session_id row = s_SessionID ses" "s_SignedCookieValue ses = signCookie (s_SessionID ses) (dbHash s)"
      by (rule create_some)
    then have "owned e (db w1) (s_SessionID ses) (u_ID usr)"
      "s_SignedCookieValue ses = signCookie (s_SessionID ses) (dbHash s)" by (auto simp: owned_def)
    with cookie_phase [OF staff_grows [OF assms(1) g]] w'
    have "phase_ok e s (db w') em (Finished (Inr (s_SignedCookieValue ses)))" by (simp only:)
    with assms(2) r Inr show ?thesis by (auto simp del: phase_ok.simps)
  qed
qed

lemma advance_ok:
  assumes "phase_ok e s (db w) em p" "advance e s lg p w = (p', w')"
  shows "phase_ok e s (db w') em p' \<and> grows (db w) (db w')"
proof (cases p)
  case (Arrived ck em')
  with assms show ?thesis by (auto split: if_splits)
next
  case (Verify em')
  obtain r w1 where r: "find_by_email e em w = (r, w1)" by fastforce
  have w1: "db w1 = db w" using find_by_email_frame(1) [of e em w] r by simp
  have "r = Inr usr \<Longrightarrow> IsActive usr \<Longrightarrow> staff e (db w) em (u_ID usr)" for usr
    using find_by_email_user [of e em w usr] r by (auto simp: staff_def IsActive_def)
  with assms r w1 Verify show ?thesis by (cases r) (auto split: if_splits)
next
  case (LookUp em' usr)
  with assms lookup_ok [of e w em usr s lg p' w'] show ?thesis by simp
next
  case (Refresh em' usr row)
  with assms refresh_ok [of e w em usr row s lg p' w'] show ?thesis by simp
next
  case (Insert em' usr)
  with assms insert_ok [of e w em usr s lg p' w'] show ?thesis by simp
next
  case (Finished r)
  with assms show ?thesis by auto
qed

text \<open>Rows that the requests still in progress may add.\<close>

fun pending :: "phase \<Rightarrow> nat" where
  "pending (Finished r) = 0"
| "pending p = 1"

lemma advance_count:
  assumes "advance e s lg p w = (p', w')"
  shows "length (sessions (db w')) + pending p' \<le> length (sessions (db w)) + pending p"
proof (cases p)
  case (Arrived ck em)
  with assms show ?thesis by (auto split: if_splits)
next
  case (Verify em)
  with assms find_by_email_frame(1) [of e em w] show ?thesis
    by (cases p') (auto simp: Let_def split_def)
next
  case (LookUp em usr)
  obtain now w1 where n: "time_now e w = (now, w1)" by fastforce
  let ?stmt = "select_session e (u_ID usr) (add_days now (sint (- sessionMaxAge s)))"
  obtain r w2 where r: "run_sql e ?stmt w1 = (r, w2)" by fastforce
  have "db w2 = db w" using run_sql_read_only [of ?stmt e w1] r n by simp
  with assms LookUp n r show ?thesis by (cases p') auto
next
  case (Refresh em usr row)
  obtain now0 w1 where n: "time_now e w = (now0, w1)" by fastforce
  obtain now w2 where n2: "time_now e w1 = (now, w2)" by fastforce
  let ?stmt = "update_session e (marshal_session_data (session_data_at now0 (u_ID usr) (sessionMaxAge s))) now (sr_session_id row)"
  obtain r w3 where r: "run_sql e ?stmt w2 = (r, w3)" by fastforce
  have "length (sessions (db w3)) = length (sessions (db w))"
    using run_sql_db [of e ?stmt w2] r n n2 by (auto simp: update_session_def)
  with assms Refresh n n2 r show ?thesis by (cases r) (auto simp: buildSessionData_def)
next
  case (Insert em usr)
  obtain r w1 where r: "create_session e s (u_ID usr) w = (r, w1)" by fastforce
  have "length (sessions (db w1)) \<le> Suc (length (sessions (db w)))"
    using r by (cases rule: create_cases [of e w s "u_ID usr"]) auto
  with assms Insert r show ?thesis by (cases r) auto
next
  case (Finished r)
  with assms show ?thesis by simp
qed

lemma sum_list_update_nat:
  "i < length xs \<Longrightarrow> sum_list (xs[i := y]) + xs ! i = sum_list xs + (y :: nat)"
proof (induction xs arbitrary: i)
  case (Cons x xs)
  then show ?case by (cases i) simp_all
qed simp

lemma system_invariant:
  assumes "(sys_step e s lg)\<^sup>*\<^sup>* (ths, w) (ths', w')"
    and "list_all2 (phase_ok e s (db w)) ems ths"
  shows "list_all2 (phase_ok e s (db w')) ems ths' \<and> grows (db w) (db w')
    \<and> length (sessions (db w')) + sum_list (map pending ths') \<le> length (sessions (db w)) + sum_list (map pending ths)"
  using assms
proof (induction rule: rtranclp_induct2)
  case refl
  then show ?case by simp
next
  case (step ths1 w1 ths2 w2)
  then have inv: "list_all2 (phase_ok e s (db w1)) ems ths1" "grows (db w) (db w1)"
    and cnt: "length (sessions (db w1)) + sum_list (map pending ths1) \<le> length (sessions (db w)) + sum_list (map pending ths)"
    by simp_all
  from step.hyps(2) obtain i p where i: "i < length ths1" "advance e s lg (ths1 ! i) w1 = (p, w2)" "ths2 = ths1[i := p]"
    by (rule sys_step_elim)
  have len: "length ems = length ths1" using inv(1) by (rule list_all2_lengthD)
  have "phase_ok e s (db w1) (ems ! i) (ths1 ! i)" using inv(1) i(1) len by (simp add: list_all2_conv_all_nth)
  from advance_ok [OF this i(2)] have p: "phase_ok e s (db w2) (ems ! i) p" "grows (db w1) (db w2)" by simp_all
  have "list_all2 (phase_ok e s (db w2)) ems ths1"
    using inv(1) phase_ok_grows [OF _ p(2)] by (auto simp: list_all2_conv_all_nth)
  then have "list_all2 (phase_ok e s (db w2)) ems ths2"
    using p(1) i(1) len by (auto simp: i(3) list_all2_conv_all_nth nth_list_update)
  moreover have "sum_list (map pending ths2) + pending (ths1 ! i) = sum_list (map pending ths1) + pending p"
    using sum_list_update_nat [of i "map pending ths1" "pending p"] i(1) by (simp add: i(3) map_update)
  ultimately show ?case
    using grows_trans [OF inv(2) p(2)] advance_count [OF i(2)] cnt by simp
qed

subsection \<open>Two requests of one user\<close>

lemma advances_steps:
  "i < length ths \<Longrightarrow> advances n e s lg (ths ! i) w = (p, w') \<Longrightarrow> (sys_step e s lg)\<^sup>*\<^sup>* (ths, w) (ths[i := p], w')"
proof (induction n arbitrary: ths w)
  case (Suc n)
  obtain q v where q: "advance e s lg (ths ! i) w = (q, v)" by fastforce
  have "advances n e s lg (ths[i := q] ! i) v = (p, w')" using Suc.prems q by simp
  from Suc.IH [OF _ this] Suc.prems(1) have "(sys_step e s lg)\<^sup>*\<^sup>* (ths[i := q], v) (ths[i := p], w')" by simp
  with run_phase [OF Suc.prems(1) q] show ?case by (rule converse_rtranclp_into_rtranclp)
qed auto

lemma no_fault_user:
  assumes "sql_fault e (sql_calls w) = None" "users (db w) = [u]" "text_eq e (ur_email u) em"
  shows "\<exists>w'. find_by_email e em w = (Inr \<lparr>u_ID = ur_id u, u_Email = ur_email u, u_Status = ur_status u\<rparr>, w') \<and> db w' = db w"
proof -
  have "fst (find_by_email e em w) = Inr \<lparr>u_ID = ur_id u, u_Email = ur_email u, u_Status = ur_status u\<rparr>"
    using assms by (simp add: find_by_email_def run_sql_ok select_user_def limit_one_def Let_def)
  moreover have "db (snd (find_by_email e em w)) = db w" by simp
  ultimately show ?thesis by (metis prod.collapse)
qed

text \<open>Up to the insertion, when the user has no session.\<close>

lemma reaches_insert:
  assumes "\<And>k. sql_fault e k = None" "users (db w) = [u]" "text_eq e (ur_email u) em" "ur_status u = ''active''"
    and "sessions (db w) = []" "\<not> hasGhostSessionCookie ck"
  shows "\<exists>usr w'. advances 3 e s lg (Arrived ck em) w = (Insert em usr, w') \<and> u_ID usr = ur_id u \<and> db w' = db w"
proof -
  let ?usr = "\<lparr>u_ID = ur_id u, u_Email = ur_email u, u_Status = ur_status u\<rparr>"
  let ?w1 = "log_at lg LevelInfo ''no ghost session cookie found, verifying staff membership'' [(''email'', AString em)] w"
  have "users (db ?w1) = [u]" by (simp add: assms(2))
  from no_fault_user [of e ?w1 u, OF assms(1) this assms(3)] obtain w2 where
    w2: "find_by_email e em ?w1 = (Inr ?usr, w2)" "db w2 = db w" by auto
  obtain now w3 where n: "time_now e w2 = (now, w3)" by fastforce
  let ?stmt = "select_session e (ur_id u) (add_days now (sint (- sessionMaxAge s)))"
  obtain r w4 where r: "run_sql e ?stmt w3 = (r, w4)" by fastforce
  have "db w4 = db w" using run_sql_read_only [of ?stmt e w3] r n w2 by simp
  moreover have "r = Inl (Sentinel SqlErrNoRows)"
    using r n w2 run_sql_ok [of e w3 ?stmt, OF assms(1)]
    by (simp add: select_session_def newest_def limit_one_def assms(5))
  ultimately show ?thesis
    using assms(4,6) w2 n r by (simp add: numeral_eq_Suc IsActive_def Let_def)
qed

lemma insert_adds:
  assumes "\<And>k. sql_fault e k = None" "\<And>k. entropy e k \<noteq> None"
  shows "\<exists>sid row w'. advance e s lg (Insert em usr) w = (Finished (Inr (signCookie sid (dbHash s))), w')
    \<and> sessions (db w') = sessions (db w) @ [row] \<and> sr_session_id row = sid \<and> sr_user_id row = u_ID usr"
proof (cases rule: create_cases [of e w s "u_ID usr"])
  case (created sid oid)
  then show ?thesis by (simp add: created_session_def created_row_def)
qed (use assms in auto)

text \<open>Two overlapping requests of a user who has no session can both pass the lookup before
  either inserts; then both are answered with a cookie and the user has two session rows.\<close>

lemma overlapping_requests_duplicate:
  assumes "\<forall>k. sql_fault e k = None" "\<forall>k. entropy e k \<noteq> None"
    and "users (db w) = [u]" "text_eq e (ur_email u) em" "ur_status u = ''active''"
    and "sessions (db w) = []" "\<not> hasGhostSessionCookie ck"
  shows "\<exists>sid1 sid2 w'. (sys_step e s lg)\<^sup>*\<^sup>* ([Arrived ck em, Arrived ck em], w)
      ([Finished (Inr (signCookie sid1 (dbHash s))), Finished (Inr (signCookie sid2 (dbHash s)))], w')
    \<and> map sr_session_id (sessions (db w')) = [sid1, sid2] \<and> map sr_user_id (sessions (db w')) = [ur_id u, ur_id u]"
proof -
  note ok = assms(1)[rule_format] assms(2)[rule_format]
  let ?R = "(sys_step e s lg)\<^sup>*\<^sup>*"
  obtain usr1 w1 where 1: "advances 3 e s lg (Arrived ck em) w = (Insert em usr1, w1)" "u_ID usr1 = ur_id u" "db w1 = db w"
    using reaches_insert [OF ok(1) assms(3-7)] by blast
  have "users (db w1) = [u]" "sessions (db w1) = []" using 1(3) assms(3,6) by simp_all
  with reaches_insert [OF ok(1) _ assms(4,5) _ assms(7)] obtain usr2 w2 where
    2: "advances 3 e s lg (Arrived ck em) w1 = (Insert em usr2, w2)" "u_ID usr2 = ur_id u" "db w2 = db w1" by blast
  obtain sid1 row1 w3 where 3: "advance e s lg (Insert em usr1) w2 = (Finished (Inr (signCookie sid1 (dbHash s))), w3)"
    "sessions (db w3) = sessions (db w2) @ [row1]" "sr_session_id row1 = sid1" "sr_user_id row1 = u_ID usr1"
    using insert_adds [OF ok] by blast
  obtain sid2 row2 w4 where 4: "advance e s lg (Insert em usr2) w3 = (Finished (Inr (signCookie sid2 (dbHash s))), w4)"
    "sessions (db w4) = sessions (db w3) @ [row2]" "sr_session_id row2 = sid2" "sr_user_id row2 = u_ID usr2"
    using insert_adds [OF ok] by blast
  have "?R ([Arrived ck em, Arrived ck em], w) ([Insert em usr1, Arrived ck em], w1)"
    using advances_steps [of 0 "[Arrived ck em, Arrived ck em]"] 1(1) by fastforce
  also have "?R ([Insert em usr1, Arrived ck em], w1) ([Insert em usr1, Insert em usr2], w2)"
    using advances_steps [of 1 "[Insert em usr1, Arrived ck em]"] 2(1) by fastforce
  also have "?R ([Insert em usr1, Insert em usr2], w2) ([Finished (Inr (signCookie sid1 (dbHash s))), Insert em usr2], w3)"
    using run_phase [of 0 "[Insert em usr1, Insert em usr2]"] 3(1) by fastforce
  also have "?R ([Finished (Inr (signCookie sid1 (dbHash s))), Insert em usr2], w3)
      ([Finished (Inr (signCookie sid1 (dbHash s))), Finished (Inr (signCookie sid2 (dbHash s)))], w4)"
    using run_phase [of 1 "[Finished (Inr (signCookie sid1 (dbHash s))), Insert em usr2]"] 4(1) by fastforce
  finally have "?R ([Arrived ck em, Arrived ck em], w)
      ([Finished (Inr (signCookie sid1 (dbHash s))), Finished (Inr (signCookie sid2 (dbHash s)))], w4)" .
  moreover have "sessions (db w4) = [row1, row2]" using 1 2 3 4 assms(6) by simp
  ultimately show ?thesis using 1 2 3 4 by (intro exI [of _ sid1] exI [of _ sid2] exI [of _ w4]) auto
qed

text \<open>The sample tables with Alice only, so that the server's choice of row is fixed.\<close>

definition alice_world :: world where
  "alice_world = world_of (sample_db\<lparr>users := [alice]\<rparr>)"

lemma alice_facts: "users (db alice_world) = [alice]" "sessions (db alice_world) = []"
  "\<forall>k. sql_fault sample_env k = None" "\<forall>k. entropy sample_env k \<noteq> None"
  "text_eq sample_env (ur_email alice) ''alice@example.com''" "ur_status alice = ''active''" "ur_id alice = ''1''"
  by (simp_all add: alice_world_def sample_defs)

lemma overlapping_requests_duplicate_witness:
  "\<exists>sid1 sid2 w'. (sys_step sample_env sample_store LevelInfo)\<^sup>*\<^sup>*
      ([Arrived [] ''alice@example.com'', Arrived [] ''alice@example.com''], alice_world)
      ([Finished (Inr (signCookie sid1 (dbHash sample_store))), Finished (Inr (signCookie sid2 (dbHash sample_store)))], w')
    \<and> map sr_session_id (sessions (db w')) = [sid1, sid2] \<and> map sr_user_id (sessions (db w')) = [ur_id alice, ur_id alice]"
  by (rule overlapping_requests_duplicate [OF alice_facts(3,4,1,5,6,2)]) simp

lemma limit_one_only:
  assumes "u \<in> set rows" "\<And>x. x \<in> set rows \<Longrightarrow> x = u"
  shows "limit_one t rows = Inr u"
proof (rule limit_one_cases [of rows t])
  assume "rows = []"
  with assms(1) show ?thesis by simp
next
  fix row assume "row \<in> set rows" "limit_one t rows = Inr row"
  with assms(2) show ?thesis by simp
qed

text \<open>Without a fault the lookup of an email that one user has answers that user.\<close>

lemma unique_user:
  assumes "sql_fault e (sql_calls w) = None" "u \<in> set (users (db w))" "text_eq e (ur_email u) em"
    and "\<forall>x \<in> set (users (db w)). text_eq e (ur_email x) em \<longrightarrow> x = u"
  shows "\<exists>w'. find_by_email e em w = (Inr \<lparr>u_ID = ur_id u, u_Email = ur_email u, u_Status = ur_status u\<rparr>, w') \<and> db w' = db w
    \<and> now_calls w' = now_calls w \<and> sql_calls w' = Suc (sql_calls w)"
proof -
  have "limit_one (tie e (sql_calls w)) (filter (\<lambda>r. text_eq e (ur_email r) em) (users (db w))) = Inr u"
  proof (rule limit_one_only)
    show "u \<in> set (filter (\<lambda>r. text_eq e (ur_email r) em) (users (db w)))" using assms(2,3) by simp
    fix x assume "x \<in> set (filter (\<lambda>r. text_eq e (ur_email r) em) (users (db w)))"
    then have "x \<in> set (users (db w))" "text_eq e (ur_email x) em" by simp_all
    with assms(4) show "x = u" by blast
  qed
  then have "fst (find_by_email e em w) = Inr \<lparr>u_ID = ur_id u, u_Email = ur_email u, u_Status = ur_status u\<rparr>"
    using assms(1) by (simp add: find_by_email_def run_sql_ok select_user_def Let_def)
  moreover have "db (snd (find_by_email e em w)) = db w" "now_calls (snd (find_by_email e em w)) = now_calls w"
    "sql_calls (snd (find_by_email e em w)) = Suc (sql_calls w)" by simp_all
  ultimately show ?thesis by (metis prod.collapse)
qed

text \<open>C22 (functional): requests that follow one another reuse the session.  When a request has been
  answered with a cookie, and at most one staff user has the email, the next request of that email without the Ghost
  cookie, none of whose three statements fails, is answered with the signature of a session of that user which
  was already in the table, and adds no row; provided that none of the user's sessions has reached the maximum
  age and that the collation is reflexive.\<close>

theorem later_request_reuses:
  assumes "EnsureSession (mariadb_service e s lg) ck em w = (Inr c, w1)" "c \<noteq> []" "\<not> hasGhostSessionCookie ck2"
    and "\<forall>x \<in> set (users (db w)). \<forall>y \<in> set (users (db w)). text_eq e (ur_email x) em \<and> text_eq e (ur_email y) em \<longrightarrow> x = y"
    and "\<forall>k < 3. sql_fault e (sql_calls w1 + k) = None" "\<forall>i. text_eq e i i"
    and "\<forall>u \<in> set (users (db w)). \<forall>r \<in> set (sessions (db w1)). text_eq e (ur_email u) em \<and> text_eq e (sr_user_id r) (ur_id u)
      \<longrightarrow> arg_time e (add_days (clock e (now_calls w1)) (sint (- sessionMaxAge s))) \<le> sr_created_at r"
  shows "\<exists>u \<in> set (users (db w)). \<exists>row \<in> set (sessions (db w1)). \<exists>w2.
      EnsureSession (mariadb_service e s lg) ck2 em w1 = (Inr (signCookie (sr_session_id row) (dbHash s)), w2)
    \<and> text_eq e (ur_email u) em \<and> ur_status u = ''active'' \<and> text_eq e (sr_user_id row) (ur_id u)
    \<and> map sr_session_id (sessions (db w2)) = map sr_session_id (sessions (db w1))"
proof -
  let ?sv = "mariadb_service e s lg"
  have ens: "fst (EnsureSession ?sv ck em w) = Inr c" using assms(1) by simp
  from cookie_only_for_staff [OF ens assms(2)] assms(1) obtain u row where u: "u \<in> set (users (db w))"
    "text_eq e (ur_email u) em" "ur_status u = ''active''" and row: "row \<in> set (sessions (db w1))"
    "sr_user_id row = ur_id u \<or> text_eq e (sr_user_id row) (ur_id u)" by auto
  with assms(6) have owner: "text_eq e (sr_user_id row) (ur_id u)" by auto
  have "advances 4 e s lg ([Arrived ck em] ! 0) w = (Finished (Inr c), w1)" by (simp add: phases_alone assms(1))
  from advances_steps [OF _ this]
  have "(sys_step e s lg)\<^sup>*\<^sup>* ([Arrived ck em], w) ([Finished (Inr c)], w1)" by simp
  from system_invariant [OF this, of "[em]"] have users: "users (db w1) = users (db w)" by (simp add: grows_def)
  have ok: "sql_fault e (sql_calls w1) = None" "sql_fault e (Suc (sql_calls w1)) = None" "sql_fault e (Suc (Suc (sql_calls w1))) = None"
    using assms(5) [rule_format, of 0] assms(5) [rule_format, of 1] assms(5) [rule_format, of 2] by (simp_all add: numeral_2_eq_2)
  have "\<forall>x \<in> set (users (db (asked ?sv em w1))). text_eq e (ur_email x) em \<longrightarrow> x = u"
    using assms(4) u(1,2) unfolding asked_frame users by blast
  note only = this
  have "u \<in> set (users (db (asked ?sv em w1)))" "sql_fault e (sql_calls (asked ?sv em w1)) = None"
    using u(1) ok(1) by (simp_all add: users)
  from unique_user [OF this(2,1) u(2) only] obtain w3 where w3:
    "find_by_email e em (asked ?sv em w1) = (Inr \<lparr>u_ID = ur_id u, u_Email = ur_email u, u_Status = ur_status u\<rparr>, w3)"
    "db w3 = db w1" "now_calls w3 = now_calls w1" "sql_calls w3 = Suc (sql_calls w1)" by auto
  have live: "row \<in> set (live_rows e s (ur_id u) (clock e (now_calls w3)) (db w3))"
    using row(1) owner assms(7) u(1,2) by (simp add: live_rows_def w3)
  show ?thesis
  proof (cases rule: find_cases [of e s "ur_id u" w3])
    case absent
    with live show ?thesis by simp
  next
    case (found best)
    have ids: "map sr_session_id (sessions (db (snd (find_by_user_id e s (ur_id u) w3)))) = map sr_session_id (sessions (db w3))"
      by (rule find_by_user_id_ids)
    have best: "best \<in> set (sessions (db w1))" "text_eq e (sr_user_id best) (ur_id u)"
      using subsetD [OF newest_subset found(1)] by (simp_all add: live_rows_def w3)
    from found(4) assms(3) u(3) w3(1,2) ids have "\<exists>w2. EnsureSession ?sv ck2 em w1
        = (Inr (signCookie (sr_session_id best) (dbHash s)), w2)
      \<and> map sr_session_id (sessions (db w2)) = map sr_session_id (sessions (db w1))"
      by (simp add: EnsureSession_def asked_def Let_def IsActive_def session_of_def refreshed_ids)
    with u best show ?thesis by blast
  qed (use ok w3(4) in simp_all)
qed

definition alice_session_world :: world where
  "alice_session_world = world_of (sample_db\<lparr>users := [alice], sessions := [alice_session]\<rparr>)"

lemma later_request_reuses_witness:
  "\<exists>c w1 c2 w2. EnsureSession (sample_service LevelInfo) [] ''alice@example.com'' alice_session_world = (Inr c, w1)
    \<and> EnsureSession (sample_service LevelInfo) [] ''alice@example.com'' w1 = (Inr c2, w2) \<and> c2 \<noteq> []
    \<and> map sr_session_id (sessions (db w2)) = map sr_session_id (sessions (db w1))"
proof -
  let ?em = "''alice@example.com''" and ?s = "sample_store" and ?e = sample_env
  have us: "users (db (asked (sample_service LevelInfo) ?em alice_session_world)) = [alice]"
    and ss: "sessions (db alice_session_world) = [alice_session]" "now_calls alice_session_world = 0"
    by (simp_all add: alice_session_world_def world_of_def)
  from no_fault_user [OF alice_facts(3)[rule_format] us alice_facts(5)] obtain w2 where
    w2: "find_by_email ?e ?em (asked (sample_service LevelInfo) ?em alice_session_world)
       = (Inr \<lparr>u_ID = ''1'', u_Email = ur_email alice, u_Status = ''active''\<rparr>, w2)" "db w2 = db alice_session_world"
    by (auto simp: alice_facts)
  have now: "now_calls w2 = 0"
    using find_by_email_frame(4) [of ?e ?em "asked (sample_service LevelInfo) ?em alice_session_world"] w2 ss by simp
  have clk: "clock ?e 0 = start_time" "clock ?e 3 = start_time + 3000000" by (simp_all add: sample_env_def)
  have "live_rows ?e ?s ''1'' start_time (db w2) = [alice_session]"
    using sample_live [of "''k3y''"] by (simp add: live_rows_def w2 ss session_world_def world_of_def)
  then obtain d where d: "find_by_user_id ?e ?s ''1'' w2 = (Inr (Some (session_of ?s alice_session)), after_find w2 d)"
    "map sr_created_at (sessions d) = [sr_created_at alice_session]"
    by (cases rule: find_cases [of ?e ?s "''1''" w2])
      (auto simp: now clk newest_def alice_facts refreshed_ids w2 ss)
  define w1 where "w1 = log_at LevelInfo LevelDebug ''signed cookie for manual browser test''
      [(''cookie_value'', AString (signCookie ''old'' ''k3y''))]
    (log_at LevelInfo LevelInfo ''reusing existing ghost session'' [(''user_id'', AString ''1'')] (after_find w2 d))"
  have first: "EnsureSession (sample_service LevelInfo) [] ?em alice_session_world = (Inr (signCookie ''old'' ''k3y''), w1)"
    using w2 d(1) by (simp add: EnsureSession_def asked_def Let_def IsActive_def session_of_def alice_session_def w1_def)
  have young: "arg_time ?e (add_days (clock ?e (now_calls w1)) (sint (- sessionMaxAge ?s))) \<le> sr_created_at r"
    if "r \<in> set (sessions (db w1))" for r
  proof -
    from that have "sr_created_at r \<in> set (map sr_created_at (sessions d))" by (simp add: w1_def)
    then have "sr_created_at r = sr_created_at alice_session" unfolding d(2) by simp
    then show ?thesis
      by (simp add: w1_def now clk add_days_def wrap64_id unix_secs_def nanos_per_sec_def start_time_def
          alice_session_def) (simp add: sample_env_def)
  qed
  have "users (db alice_session_world) = [alice]" by (simp add: alice_session_world_def world_of_def)
  with young have old: "\<forall>x \<in> set (users (db alice_session_world)). \<forall>y \<in> set (users (db alice_session_world)).
      text_eq ?e (ur_email x) ?em \<and> text_eq ?e (ur_email y) ?em \<longrightarrow> x = y"
    "\<forall>u \<in> set (users (db alice_session_world)). \<forall>r \<in> set (sessions (db w1)).
      text_eq ?e (ur_email u) ?em \<and> text_eq ?e (sr_user_id r) (ur_id u)
      \<longrightarrow> arg_time ?e (add_days (clock ?e (now_calls w1)) (sint (- sessionMaxAge ?s))) \<le> sr_created_at r" by simp_all
  have "\<forall>k < 3. sql_fault ?e (sql_calls w1 + k) = None" "\<forall>i. text_eq ?e i i" by (simp_all add: sample_env_def)
  from later_request_reuses [OF first signCookie_nonempty no_cookie_nil old(1) this old(2)] first
  show ?thesis using signCookie_nonempty by blast
qed

end
