(* ===== verification/Rpcs.thy ===== *)
theory Rpcs
  imports Interleaving
begin

text \<open>
  Whole RPCs that overlap.  The gRPC server runs each \<open>Check\<close> on a goroutine of its own;
  \<open>rpc_advance\<close> is \<open>Check\<close> of the wired server cut at what it shares with the others: the question to
  Authentik, the SQL statements of \<open>EnsureSession\<close>, and the answer.  An RPC that runs alone is
  \<open>ext_check\<close> (\<open>rpc_phases_refine\<close>); any interleaving of RPCs ends after a bounded number of
  steps and plants cookies only for staff members that Authentik vouched for.
\<close>

datatype rpc =
    Received "check_request option"
  | InService "check_request option" string phase
  | Answered check_response

definition reply :: "server \<Rightarrow> string \<Rightarrow> go_error + string \<Rightarrow> world \<Rightarrow> check_response \<times> world" where
  "reply sv email r w =
     (case r of
        Inl err \<Rightarrow> (okResponse, log_at (sv_logger sv) LevelWarn ''auth service error, failing open'' [(''error'', AError err)] w)
      | Inr signedCookie \<Rightarrow>
          if signedCookie = [] then (okResponse, w)
          else (deniedRedirectWithCookie ghostAdminPath (buildSetCookieHeader sv signedCookie),
                log_at (sv_logger sv) LevelInfo ''issuing cookie-set redirect''
                  [(''redirect_target'', AString ghostAdminPath), (''email'', AString email)] w))"

fun rpc_advance :: "environment \<Rightarrow> client \<Rightarrow> mariadb_store \<Rightarrow> logger \<Rightarrow> rpc \<Rightarrow> world \<Rightarrow> rpc \<times> world" where
  "rpc_advance e c s lg (Received req) w =
     (let sv = wired e c s lg;
          (r, w1) = Check e c (cookie_of req) (host_of req) (proto_of req) (uri_of req) (noted sv req w)
      in case r of
           Inl err \<Rightarrow> (Answered okResponse, log_at lg LevelWarn ''authentik forward auth error, failing open''
             [(''error'', AError err)] w1)
         | Inr (email, redirectURL, authentikCookies) \<Rightarrow>
             if redirectURL \<noteq> [] then
               (Answered (deniedRedirectTo redirectURL authentikCookies),
                log_at lg LevelDebug ''authentik redirect, not authenticated''
                  [(''location'', AString redirectURL), (''proxy_cookies'', AInt (int (length authentikCookies)))] w1)
             else (InService req email (Arrived (cookie_of req) email), w1))"
| "rpc_advance e c s lg (InService req email (Finished r)) w =
     (let (resp, w1) = reply (wired e c s lg) email r w in (Answered resp, w1))"
| "rpc_advance e c s lg (InService req email ph) w =
     (let (ph', w1) = advance e s lg ph w in (InService req email ph', w1))"
| "rpc_advance e c s lg (Answered resp) w = (Answered resp, w)"

fun rpc_advances :: "nat \<Rightarrow> environment \<Rightarrow> client \<Rightarrow> mariadb_store \<Rightarrow> logger \<Rightarrow> rpc \<Rightarrow> world \<Rightarrow> rpc \<times> world" where
  "rpc_advances 0 e c s lg p w = (p, w)"
| "rpc_advances (Suc n) e c s lg p w = (let (q, w') = rpc_advance e c s lg p w in rpc_advances n e c s lg q w')"

lemma rpc_advance_service:
  "rpc_advance e c s lg (InService req em ph) w =
     (case ph of Finished r \<Rightarrow> (let (resp, w1) = reply (wired e c s lg) em r w in (Answered resp, w1))
      | _ \<Rightarrow> (let (ph', w1) = advance e s lg ph w in (InService req em ph', w1)))"
  by (cases ph) simp_all

lemma rpc_advances_answered [simp]: "rpc_advances n e c s lg (Answered r) w = (Answered r, w)"
  by (induction n) simp_all

lemma rpc_advances_service:
  "advances n e s lg ph w = (Finished r, w') \<Longrightarrow>
   rpc_advances (Suc n) e c s lg (InService req em ph) w
     = (let (resp, w1) = reply (wired e c s lg) em r w' in (Answered resp, w1))"
proof (induction n arbitrary: ph w)
  case 0
  then show ?case by (simp add: Let_def split_def)
next
  case (Suc n)
  show ?case
  proof (cases "\<exists>r'. ph = Finished r'")
    case True
    with Suc.prems show ?thesis by (auto simp: split_def Let_def)
  next
    case False
    obtain q v where q: "advance e s lg ph w = (q, v)" by fastforce
    with Suc.prems have "advances n e s lg q v = (Finished r, w')" by simp
    from Suc.IH [OF this] False q show ?thesis
      by (cases ph) (simp_all add: rpc_advance_service)
  qed
qed

subsection \<open>One RPC alone\<close>

lemma rpc_alone:
  "rpc_advances 6 e c s lg (Received req) w
     = (let ((resp, err), w') = ext_check (wired e c s lg) req w in (Answered resp, w'))"
proof -
  let ?sv = "wired e c s lg"
  obtain r w2 where chk: "Check e c (cookie_of req) (host_of req) (proto_of req) (uri_of req) (noted ?sv req w) = (r, w2)"
    by fastforce
  have "6 = Suc (Suc 4)" by simp
  then have six: "rpc_advances 6 e c s lg p v = (let (q, v') = rpc_advance e c s lg p v in rpc_advances (Suc 4) e c s lg q v')" for p v
    by (simp only: rpc_advances.simps(2) [of "Suc 4"])
  show ?thesis
  proof (cases r)
    case (Inl err)
    with chk show ?thesis by (simp add: six ext_check_eq Let_def)
  next
    case (Inr a)
    obtain em loc cks where a: "a = (em, loc, cks)" by (metis prod_cases3)
    show ?thesis
    proof (cases "loc = []")
      case False
      with chk Inr a show ?thesis by (simp add: six ext_check_eq Let_def)
    next
      case True
      obtain x w3 where ens: "EnsureSession (mariadb_service e s lg) (cookie_of req) em w2 = (x, w3)" by fastforce
      then have "advances 4 e s lg (Arrived (cookie_of req) em) w2 = (Finished x, w3)" by (simp add: phases_alone)
      from rpc_advances_service [OF this] have "rpc_advances (Suc 4) e c s lg (InService req em (Arrived (cookie_of req) em)) w2
        = (let (resp, w1) = reply ?sv em x w3 in (Answered resp, w1))" .
      with chk Inr a True ens show ?thesis
        by (simp add: six ext_check_eq reply_def Let_def split: sum.split del: rpc_advances.simps)
    qed
  qed
qed

text \<open>C18 (equivalence): an RPC that is not interrupted does in its six phases at most what \<open>Check\<close> does: it gives
  the same response and leaves the same world, log included; and \<open>Check\<close> never returns a gRPC error,
  it answers by letting the request through or by a 302 with a non-empty \<open>location\<close> header.\<close>

theorem rpc_phases_refine:
  "\<exists>resp w'. ext_check (wired e c s lg) req w = ((resp, None), w')
     \<and> rpc_advances 6 e c s lg (Received req) w = (Answered resp, w')
     \<and> (resp = okResponse \<or> (\<exists>loc more. loc \<noteq> [] \<and> cr_status resp = PermissionDenied \<and> cr_http resp = DeniedResponse 302
          (\<lparr>hv_key = ''location'', hv_value = loc, hv_action = OVERWRITE_IF_EXISTS_OR_ADD\<rparr> # more)))"
proof -
  obtain resp w' where "ext_check (wired e c s lg) req w = ((resp, None), w')" "resp = okResponse
      \<or> (\<exists>loc more. cr_status resp = PermissionDenied \<and> loc \<noteq> [] \<and> cr_http resp = DeniedResponse 302
          (\<lparr>hv_key = ''location'', hv_value = loc, hv_action = OVERWRITE_IF_EXISTS_OR_ADD\<rparr> # more))"
    using always_answers [of "wired e c s lg" req w] by blast
  then show ?thesis using rpc_alone [of e c s lg req w] by (intro exI [of _ resp] exI [of _ w']) (auto simp: Let_def)
qed

text \<open>C29 (functional): Authentik is asked first and once.  Before an RPC makes any statement or reads the clock or
  the random source, with or without the Ghost session cookie, it hands the HTTP client one request, which forwards
  the \<open>Cookie\<close> header, the host of \<open>:authority\<close> or else \<open>host\<close>, the scheme of \<open>:scheme\<close> or else
  \<open>x-forwarded-proto\<close>, and the path; what follows is the rest of \<open>Check\<close> and hands it no other.  Only when the endpoint is
  empty or is no URL, which \<open>Load\<close> does not check, is nothing sent, and then the request is let through
  without a statement.\<close>

theorem authentik_asked_first:
  "let (th, w1) = rpc_advance e c s lg (Received req) w; h = header_at (request_headers req) in
     (if endpointURL c = [] \<or> url_error e (endpointURL c) \<noteq> None
      then th = Answered okResponse \<and> http_sent w1 = http_sent w
      else http_sent w1 = http_sent w @ [\<lparr>rq_method = ''GET'', rq_url = endpointURL c,
        rq_header = (if h ''cookie'' = [] then Map.empty else [''Cookie'' \<mapsto> [h ''cookie'']])
          (''X-Forwarded-Host'' \<mapsto> [if h '':authority'' = [] then h ''host'' else h '':authority''],
           ''X-Forwarded-Proto'' \<mapsto> [if h '':scheme'' = [] then h ''x-forwarded-proto'' else h '':scheme''],
           ''X-Forwarded-Uri'' \<mapsto> [h '':path''])\<rparr>])
     \<and> db w1 = db w \<and> sql_calls w1 = sql_calls w \<and> now_calls w1 = now_calls w \<and> rand_calls w1 = rand_calls w
     \<and> rpc_advances 5 e c s lg th w1
         = (let ((resp, err), w') = ext_check (wired e c s lg) req w in (Answered resp, w'))
     \<and> http_sent (snd (ext_check (wired e c s lg) req w)) = http_sent w1"
proof -
  let ?check = "Check e c (cookie_of req) (host_of req) (proto_of req) (uri_of req) (noted (wired e c s lg) req w)"
  obtain th w1 where first: "rpc_advance e c s lg (Received req) w = (th, w1)" by fastforce
  have "http_sent (snd (rpc_advance e c s lg (Received req) w)) = http_sent (snd ?check)"
    "db (snd (rpc_advance e c s lg (Received req) w)) = db w"
    "sql_calls (snd (rpc_advance e c s lg (Received req) w)) = sql_calls w"
    "now_calls (snd (rpc_advance e c s lg (Received req) w)) = now_calls w"
    "rand_calls (snd (rpc_advance e c s lg (Received req) w)) = rand_calls w"
    by (simp_all add: Let_def split_def split: sum.split)
  then have w1: "http_sent w1 = http_sent (snd ?check)" "db w1 = db w" "sql_calls w1 = sql_calls w" "now_calls w1 = now_calls w"
    "rand_calls w1 = rand_calls w"
    unfolding first by simp_all
  have sent: "http_sent w1 = http_sent w @ (if endpointURL c = [] \<or> url_error e (endpointURL c) \<noteq> None then [] else [login_request c req])"
    by (simp add: w1 Check_http login_request_def)
  have "th = Answered okResponse" if bad: "endpointURL c = [] \<or> url_error e (endpointURL c) \<noteq> None"
    using check_result(1) [OF bad, of "cookie_of req" "host_of req" "proto_of req" "uri_of req" "noted (wired e c s lg) req w"]
      first by (auto simp: split_def)
  moreover have "rpc_advances (Suc 5) e c s lg (Received req) w = rpc_advances 5 e c s lg th w1"
    by (simp only: rpc_advances.simps(2) first Let_def prod.case)
  then have "rpc_advances 5 e c s lg th w1 = (let ((resp, err), w') = ext_check (wired e c s lg) req w in (Answered resp, w'))"
    using rpc_alone [of e c s lg req w] by simp
  moreover have "http_sent (snd (ext_check (wired e c s lg) req w)) = http_sent w1" unfolding rpc_http w1(1) ..
  ultimately show ?thesis
    unfolding first Let_def prod.case using w1(2-5) sent [unfolded login_request_eq Let_def] by simp
qed

lemma authentik_asked_first_witness:
  "length (http_sent (snd (ext_check (wired sample_env sample_client sample_store LevelInfo)
     (request_with [''cookie'' \<mapsto> ''ghost-admin-api-session=x'']) session_world))) = 1"
proof -
  have "endpointURL sample_client \<noteq> []" "url_error sample_env (endpointURL sample_client) = None" "http_sent session_world = []"
    by (simp_all add: sample_client_def NewClient_def sample_env_def session_world_def world_of_def)
  with authentik_asked_first [of sample_env sample_client sample_store LevelInfo
      "request_with [''cookie'' \<mapsto> ''ghost-admin-api-session=x'']" session_world]
  show ?thesis by (simp add: split_def Let_def del: rpc_advance.simps)
qed

subsection \<open>Any number of RPCs\<close>

text \<open>Steps an RPC has before it, and rows it may still add.\<close>

fun rank :: "phase \<Rightarrow> nat" where
  "rank (Arrived ck em) = 4"
| "rank (Verify em) = 3"
| "rank (LookUp em usr) = 2"
| "rank (Finished r) = 0"
| "rank _ = 1"

fun remaining :: "rpc \<Rightarrow> nat" where
  "remaining (Received req) = 6"
| "remaining (InService req em ph) = Suc (rank ph)"
| "remaining (Answered resp) = 0"

fun may_add :: "rpc \<Rightarrow> nat" where
  "may_add (Received req) = 1"
| "may_add (InService req em ph) = pending ph"
| "may_add (Answered resp) = 0"

inductive rpc_step :: "environment \<Rightarrow> client \<Rightarrow> mariadb_store \<Rightarrow> logger \<Rightarrow> rpc list \<times> world \<Rightarrow> rpc list \<times> world \<Rightarrow> bool"
  for e c s lg where
  run_rpc: "i < length ths \<Longrightarrow> 0 < remaining (ths ! i) \<Longrightarrow> rpc_advance e c s lg (ths ! i) w = (p, w') \<Longrightarrow>
    rpc_step e c s lg (ths, w) (ths[i := p], w')"

inductive_cases rpc_step_elim: "rpc_step e c s lg (ths, w) (ths', w')"

lemma rank_decreases:
  "advance e s lg ph w = (ph', w') \<Longrightarrow> rank ph \<noteq> 0 \<Longrightarrow> rank ph' < rank ph"
  by (cases ph) (auto simp: Let_def split_def split: sum.splits if_splits)

lemma remaining_decreases:
  assumes "rpc_advance e c s lg p w = (p', w')" "0 < remaining p"
  shows "remaining p' < remaining p"
proof (cases p)
  case (Received req)
  with assms show ?thesis by (auto simp: Let_def split_def split: sum.splits if_splits)
next
  case (InService req em ph)
  show ?thesis
  proof (cases "\<exists>r. ph = Finished r")
    case True
    with assms InService show ?thesis by (auto simp: Let_def split_def)
  next
    case False
    obtain q v where q: "advance e s lg ph w = (q, v)" by fastforce
    from False have "rank ph \<noteq> 0" by (cases ph) simp_all
    with rank_decreases [OF q] False q assms(1) InService show ?thesis
      by (cases ph) (auto simp: rpc_advance_service)
  qed
qed (use assms in auto)


lemma run_length:
  "((rpc_step e c s lg) ^^ k) (ths, w) (ths', w') \<Longrightarrow>
   k + sum_list (map remaining ths') \<le> sum_list (map remaining ths)"
proof (induction k arbitrary: ths' w')
  case (Suc k)
  then obtain ths1 w1 where run: "((rpc_step e c s lg) ^^ k) (ths, w) (ths1, w1)"
    and st: "rpc_step e c s lg (ths1, w1) (ths', w')" by auto
  from st obtain i p where i: "i < length ths1" "0 < remaining (ths1 ! i)"
    "rpc_advance e c s lg (ths1 ! i) w1 = (p, w')" "ths' = ths1[i := p]" by (rule rpc_step_elim)
  have "sum_list (map remaining ths') + remaining (ths1 ! i) = sum_list (map remaining ths1) + remaining p"
    using sum_list_update_nat [of i "map remaining ths1" "remaining p"] i(1) by (simp add: i(4) map_update)
  with remaining_decreases [OF i(3,2)] Suc.IH [OF run] show ?case by simp
qed simp

text \<open>An email Authentik vouched for: one of the requests sent was the login question of this RPC, and
  its answer a 200 with that email.\<close>

definition vouched :: "environment \<Rightarrow> client \<Rightarrow> world \<Rightarrow> check_request option \<Rightarrow> string \<Rightarrow> bool" where
  "vouched e c w req em \<longleftrightarrow> (\<exists>n resp. n < length (http_sent w) \<and> http_sent w ! n = login_request c req
     \<and> round_trip e n (login_request c req) = Inr resp \<and> rs_status resp = 200
     \<and> em = header_get (rs_header resp) ''X-Authentik-Email'')"

text \<open>What an answer may be: the request passes, it is sent to the login page, or the cookie of a session of
  an active staff member with a vouched email is planted.\<close>

definition answer_ok :: "environment \<Rightarrow> client \<Rightarrow> mariadb_store \<Rightarrow> logger \<Rightarrow> world \<Rightarrow> check_request option \<Rightarrow> check_response \<Rightarrow> bool" where
  "answer_ok e c s lg w req resp \<longleftrightarrow> resp = okResponse
     \<or> (\<exists>loc cks. loc \<noteq> [] \<and> resp = deniedRedirectTo loc cks)
     \<or> (\<exists>em uid sid. vouched e c w req em \<and> staff e (db w) em uid \<and> owned e (db w) sid uid
          \<and> resp = deniedRedirectWithCookie ghostAdminPath (buildSetCookieHeader (wired e c s lg) (signCookie sid (dbHash s))))"

lemma answer_pass [simp]: "answer_ok e c s lg w req okResponse"
  by (simp add: answer_ok_def)

lemma answer_login [simp]: "loc \<noteq> [] \<Longrightarrow> answer_ok e c s lg w req (deniedRedirectTo loc cks)"
  unfolding answer_ok_def by blast

lemma answer_plant:
  "vouched e c w req em \<Longrightarrow> staff e (db w) em uid \<Longrightarrow> owned e (db w) sid uid \<Longrightarrow> answer_ok e c s lg w req
     (deniedRedirectWithCookie ghostAdminPath (buildSetCookieHeader (wired e c s lg) (signCookie sid (dbHash s))))"
  unfolding answer_ok_def by blast

fun rpc_ok :: "environment \<Rightarrow> client \<Rightarrow> mariadb_store \<Rightarrow> logger \<Rightarrow> world \<Rightarrow> check_request option \<Rightarrow> rpc \<Rightarrow> bool" where
  "rpc_ok e c s lg w req (Received req') \<longleftrightarrow> req' = req"
| "rpc_ok e c s lg w req (InService req' em ph) \<longleftrightarrow> req' = req \<and> vouched e c w req em \<and> phase_ok e s (db w) em ph"
| "rpc_ok e c s lg w req (Answered resp) \<longleftrightarrow> answer_ok e c s lg w req resp"

definition later :: "world \<Rightarrow> world \<Rightarrow> bool" where
  "later w w' \<longleftrightarrow> grows (db w) (db w') \<and> (\<exists>rqs. http_sent w' = http_sent w @ rqs)"

lemma later_refl [simp]: "later w w"
  by (simp add: later_def)

lemma later_trans: "later w1 w2 \<Longrightarrow> later w2 w3 \<Longrightarrow> later w1 w3"
  unfolding later_def using grows_trans by fastforce

lemma vouched_later: "vouched e c w req em \<Longrightarrow> later w w' \<Longrightarrow> vouched e c w' req em"
  unfolding vouched_def later_def by (metis (no_types) length_append nth_append trans_less_add1)

lemma rpc_ok_later:
  assumes "rpc_ok e c s lg w req p" "later w w'"
  shows "rpc_ok e c s lg w' req p"
proof -
  have g: "grows (db w) (db w')" using assms(2) by (simp add: later_def)
  show ?thesis
  proof (cases p)
    case (InService req' em ph)
    then show ?thesis using assms phase_ok_grows [OF _ g] vouched_later [OF _ assms(2)] by simp
  next
    case (Answered resp)
    then show ?thesis
      using assms staff_grows [OF _ g] owned_grows [OF _ g] vouched_later [OF _ assms(2)]
      by (simp add: answer_ok_def) blast
  qed (use assms in simp)
qed

lemma create_http [simp]: "http_sent (snd (create_session e s u w)) = http_sent w"
  by (simp add: create_session_def buildSessionData_def Let_def split_def split: sum.split)

lemma advance_http [simp]: "http_sent (snd (advance e s lg p w)) = http_sent w"
  by (cases p) (simp_all add: buildSessionData_def Let_def split_def split: sum.split)


lemma check_later:
  assumes "Check e c (cookie_of req) (host_of req) (proto_of req) (uri_of req) (noted sv req w) = (r, w1)"
  shows "later w w1" "db w1 = db w"
proof -
  let ?chk = "Check e c (cookie_of req) (host_of req) (proto_of req) (uri_of req) (noted sv req w)"
  have "db (snd ?chk) = db w" "\<exists>rqs. http_sent (snd ?chk) = http_sent w @ rqs" by (simp_all add: Check_http)
  with assms show "later w w1" "db w1 = db w" by (simp_all add: later_def)
qed

lemma check_vouched:
  assumes "Check e c (cookie_of req) (host_of req) (proto_of req) (uri_of req) (noted sv req w) = (Inr (em, [], cks), w1)"
  shows "vouched e c w1 req em"
proof -
  have f: "fst (Check e c (cookie_of req) (host_of req) (proto_of req) (uri_of req) (noted sv req w)) = Inr (em, [], cks)"
    using assms by simp
  from Check_answer [OF f] obtain resp where resp: "round_trip e (length (http_sent w)) (login_request c req) = Inr resp"
    "read_response resp = Inr (em, [], cks)" "http_sent w1 = http_sent w @ [login_request c req]"
    using assms by (auto simp: login_request_def)
  with read_response_exclusive [OF resp(2)] show ?thesis
    unfolding vouched_def by (intro exI [of _ "length (http_sent w)"]) auto
qed

lemma later_log [simp]: "later w (log_at lg lv m a w') \<longleftrightarrow> later w w'"
  by (simp add: later_def)

lemma received_ok:
  assumes "rpc_advance e c s lg (Received req) w = (p', w')"
  shows "rpc_ok e c s lg w' req p'" "later w w'" "db w' = db w" "may_add p' \<le> 1"
proof -
  let ?sv = "wired e c s lg"
  obtain r w1 where chk: "Check e c (cookie_of req) (host_of req) (proto_of req) (uri_of req) (noted ?sv req w) = (r, w1)"
    by fastforce
  note frame = check_later [OF chk]
  have "rpc_ok e c s lg w' req p' \<and> later w w' \<and> db w' = db w \<and> may_add p' \<le> 1"
  proof (cases r)
    case (Inl err)
    with assms chk frame show ?thesis by auto
  next
    case (Inr a)
    obtain em loc cks where a: "a = (em, loc, cks)" by (metis prod_cases3)
    show ?thesis
    proof (cases "loc = []")
      case False
      with assms chk frame Inr a show ?thesis by auto
    next
      case True
      with check_vouched [of e c req ?sv w em cks w1] assms chk frame Inr a show ?thesis by auto
    qed
  qed
  then show "rpc_ok e c s lg w' req p'" "later w w'" "db w' = db w" "may_add p' \<le> 1" by simp_all
qed

lemma finished_ok:
  assumes "vouched e c w req em" "phase_ok e s (db w) em (Finished r)"
    and "rpc_advance e c s lg (InService req em (Finished r)) w = (p', w')"
  shows "rpc_ok e c s lg w' req p'" "later w w'" "db w' = db w" "may_add p' = 0"
proof -
  from assms(3) show l: "later w w'" "db w' = db w" "may_add p' = 0"
    by (auto simp: reply_def split: sum.splits if_splits)
  show "rpc_ok e c s lg w' req p'"
  proof (cases "\<exists>ck. r = Inr ck \<and> ck \<noteq> []")
    case True
    then obtain ck where ck: "r = Inr ck" "ck \<noteq> []" by blast
    with assms(2) obtain uid sid where own: "staff e (db w) em uid" "owned e (db w) sid uid" "ck = signCookie sid (dbHash s)"
      by auto
    have p': "p' = Answered (deniedRedirectWithCookie ghostAdminPath (buildSetCookieHeader (wired e c s lg) ck))"
      using assms(3) ck by (simp add: reply_def)
    show ?thesis unfolding p' own(3) rpc_ok.simps
      by (rule answer_plant) (use own(1,2) l vouched_later [OF assms(1) l(1)] in simp_all)
  next
    case False
    with assms(3) show ?thesis by (auto simp: reply_def split: sum.splits)
  qed
qed

lemma rpc_advance_ok:
  assumes "rpc_ok e c s lg w req p" "rpc_advance e c s lg p w = (p', w')"
  shows "rpc_ok e c s lg w' req p' \<and> later w w'
    \<and> length (sessions (db w')) + may_add p' \<le> length (sessions (db w)) + may_add p"
proof (cases p)
  case (Received req')
  with assms received_ok [of e c s lg req w p' w'] show ?thesis by simp
next
  case (InService req' em ph)
  with assms(1) have ok: "req' = req" "vouched e c w req em" "phase_ok e s (db w) em ph" by simp_all
  show ?thesis
  proof (cases "\<exists>r. ph = Finished r")
    case True
    with assms InService ok finished_ok [of e c w req em s _ lg p' w'] show ?thesis by auto
  next
    case False
    obtain q v where q: "advance e s lg ph w = (q, v)" by fastforce
    from advance_ok [OF ok(3) q] have a: "phase_ok e s (db v) em q" "grows (db w) (db v)" by simp_all
    then have l: "later w v" using advance_http [of e s lg ph w] q by (simp add: later_def)
    have "p' = InService req em q" "w' = v" using assms(2) InService False q ok(1) by (cases ph; simp add: rpc_advance_service)+
    with a l vouched_later [OF ok(2) l] advance_count [OF q] InService show ?thesis by simp
  qed
qed (use assms in auto)

lemma system_safe:
  assumes "(rpc_step e c s lg)\<^sup>*\<^sup>* (ths, w) (ths', w')" "list_all2 (rpc_ok e c s lg w) reqs ths"
  shows "list_all2 (rpc_ok e c s lg w') reqs ths' \<and> later w w'
    \<and> length (sessions (db w')) + sum_list (map may_add ths') \<le> length (sessions (db w)) + sum_list (map may_add ths)"
  using assms
proof (induction rule: rtranclp_induct2)
  case (step ths1 w1 ths2 w2)
  then have inv: "list_all2 (rpc_ok e c s lg w1) reqs ths1" "later w w1" and cnt: "length (sessions (db w1))
      + sum_list (map may_add ths1) \<le> length (sessions (db w)) + sum_list (map may_add ths)" by simp_all
  from step.hyps(2) obtain i p where i: "i < length ths1" "0 < remaining (ths1 ! i)"
    "rpc_advance e c s lg (ths1 ! i) w1 = (p, w2)" "ths2 = ths1[i := p]" by (rule rpc_step_elim)
  have len: "length reqs = length ths1" using inv(1) by (rule list_all2_lengthD)
  have "rpc_ok e c s lg w1 (reqs ! i) (ths1 ! i)" using inv(1) i(1) len by (simp add: list_all2_conv_all_nth)
  from rpc_advance_ok [OF this i(3)] have p: "rpc_ok e c s lg w2 (reqs ! i) p" "later w1 w2"
    and one: "length (sessions (db w2)) + may_add p \<le> length (sessions (db w1)) + may_add (ths1 ! i)" by simp_all
  have "list_all2 (rpc_ok e c s lg w2) reqs ths1"
    using inv(1) rpc_ok_later [OF _ p(2)] by (auto simp: list_all2_conv_all_nth)
  then have "list_all2 (rpc_ok e c s lg w2) reqs ths2"
    using p(1) i(1) len by (auto simp: i(4) list_all2_conv_all_nth nth_list_update)
  moreover have "sum_list (map may_add ths2) + may_add (ths1 ! i) = sum_list (map may_add ths1) + may_add p"
    using sum_list_update_nat [of i "map may_add ths1" "may_add p"] i(1) by (simp add: i(4) map_update)
  ultimately show ?case using later_trans [OF inv(2) p(2)] one cnt by simp
qed simp

text \<open>Several phases of one RPC while the others rest.\<close>

lemma rpc_run_at:
  "i < length ths \<Longrightarrow> rpc_advances n e c s lg (ths ! i) w = (q, w') \<Longrightarrow> (rpc_step e c s lg)\<^sup>*\<^sup>* (ths, w) (ths[i := q], w')"
proof (induction n arbitrary: ths w)
  case (Suc n)
  obtain p1 w1 where p1: "rpc_advance e c s lg (ths ! i) w = (p1, w1)" by fastforce
  show ?case
  proof (cases "remaining (ths ! i) = 0")
    case True
    then obtain resp where "ths ! i = Answered resp" by (cases "ths ! i") simp_all
    with Suc.prems show ?thesis using list_update_id [of ths i] by simp
  next
    case False
    with p1 Suc.prems(1) have st: "rpc_step e c s lg (ths, w) (ths[i := p1], w1)" by (intro run_rpc) simp_all
    have "rpc_advances n e c s lg (ths[i := p1] ! i) w1 = (q, w')" using Suc.prems p1 by simp
    from Suc.IH [OF _ this] Suc.prems(1) have "(rpc_step e c s lg)\<^sup>*\<^sup>* (ths[i := p1], w1) (ths[i := q], w')" by simp
    with st show ?thesis by (rule converse_rtranclp_into_rtranclp)
  qed
qed auto

lemma run_alone:
  assumes "fst (ext_check (wired e c s lg) req w) = (resp, None)"
  shows "(rpc_step e c s lg)\<^sup>*\<^sup>* (map Received [req], w) ([Answered resp], snd (ext_check (wired e c s lg) req w))"
proof -
  have "rpc_advances 6 e c s lg (Received req) w = (Answered resp, snd (ext_check (wired e c s lg) req w))"
    using rpc_alone [of e c s lg req w] assms by (simp add: Let_def split_def)
  with rpc_run_at [of 0 "[Received req]"] show ?thesis by simp
qed

lemmas planted_run = run_alone [OF sample_plant]

subsection \<open>Properties of overlapping RPCs\<close>

text \<open>C3 (safety): however the phases of any number of RPCs interleave, an RPC is answered by letting the
  request through, by sending it to the login page, or by planting a cookie; a cookie is planted
  only when Authentik answered the question of this very RPC with status 200 and the email of an
  active staff member, and it is the signature of a session of that member that is in the
  table.  No session row is lost or changes its id or owner, and no more rows are added than
  there were RPCs.\<close>

theorem concurrent_rpcs_safe:
  assumes "(rpc_step e c s lg)\<^sup>*\<^sup>* (map Received reqs, w) (ths, w')"
  shows "list_all2 (\<lambda>req th. case th of
        Answered resp \<Rightarrow> resp = okResponse \<or> (\<exists>loc cks. loc \<noteq> [] \<and> resp = deniedRedirectTo loc cks)
          \<or> (\<exists>n login usr row. n < length (http_sent w') \<and> http_sent w' ! n = login_request c req
              \<and> round_trip e n (login_request c req) = Inr login \<and> rs_status login = 200
              \<and> usr \<in> set (users (db w)) \<and> ur_status usr = ''active''
              \<and> text_eq e (ur_email usr) (header_get (rs_header login) ''X-Authentik-Email'')
              \<and> row \<in> set (sessions (db w')) \<and> (sr_user_id row = ur_id usr \<or> text_eq e (sr_user_id row) (ur_id usr))
              \<and> resp = deniedRedirectWithCookie ghostAdminPath
                  (buildSetCookieHeader (wired e c s lg) (signCookie (sr_session_id row) (dbHash s))))
      | _ \<Rightarrow> True) reqs ths
    \<and> users (db w') = users (db w)
    \<and> (\<forall>r \<in> set (sessions (db w)). \<exists>r' \<in> set (sessions (db w')). sr_session_id r' = sr_session_id r \<and> sr_user_id r' = sr_user_id r)
    \<and> length (sessions (db w')) \<le> length (sessions (db w)) + length reqs"
    (is "list_all2 ?ok reqs ths \<and> _")
proof -
  have "list_all2 (rpc_ok e c s lg w) reqs (map Received reqs)" by (simp add: list_all2_conv_all_nth)
  from system_safe [OF assms this] have inv: "list_all2 (rpc_ok e c s lg w') reqs ths" "grows (db w) (db w')"
    "length (sessions (db w')) \<le> length (sessions (db w)) + length reqs"
    by (simp_all add: later_def sum_list_triv comp_def)
  have users: "users (db w') = users (db w)" using inv(2) by (simp add: grows_def)
  have "?ok req th" if "rpc_ok e c s lg w' req th" for req th
  proof (cases th)
    case (Answered resp)
    with that have "answer_ok e c s lg w' req resp" by simp
    then show ?thesis unfolding answer_ok_def vouched_def staff_def owned_def users Answered rpc.case by blast
  qed simp_all
  then have "list_all2 ?ok reqs ths" using inv(1) by (rule list_all2_mono [rotated])
  with inv(2,3) show ?thesis unfolding grows_def by blast
qed

lemma concurrent_rpcs_safe_witness:
  "\<exists>w'. (rpc_step sample_env sample_client sample_store LevelInfo)\<^sup>*\<^sup>* ([Received sample_request], session_world)
      ([Answered (deniedRedirectWithCookie ghostAdminPath (buildSetCookieHeader
         (wired sample_env sample_client sample_store LevelInfo) (signCookie ''old'' ''k3y'')))], w')
    \<and> length (sessions (db w')) \<le> 2"
proof -
  note run = planted_run [of LevelInfo]
  from concurrent_rpcs_safe [OF run] have "length (sessions (db (snd (ext_check
      (wired sample_env sample_client sample_store LevelInfo) sample_request session_world)))) \<le> 2"
    by (simp add: session_world_def world_of_def)
  with run show ?thesis by auto
qed

text \<open>RPCs cannot keep each other from ending: however they interleave, \<open>n\<close> RPCs take at
  most \<open>6 n\<close> steps in all, and as long as one of them is not answered some step is possible.\<close>

lemma rpcs_terminate:
  assumes "((rpc_step e c s lg) ^^ k) (map Received reqs, w) (ths, w')"
  shows "k \<le> 6 * length reqs \<and> (list_all (\<lambda>th. \<exists>resp. th = Answered resp) ths \<or> (\<exists>st. rpc_step e c s lg (ths, w') st))"
proof
  have "sum_list (map remaining (map Received reqs)) = 6 * length reqs" by (simp add: sum_list_triv comp_def)
  with run_length [OF assms] show "k \<le> 6 * length reqs" by simp
  show "list_all (\<lambda>th. \<exists>resp. th = Answered resp) ths \<or> (\<exists>st. rpc_step e c s lg (ths, w') st)"
  proof (cases "\<exists>i < length ths. 0 < remaining (ths ! i)")
    case True
    then obtain i where "i < length ths" "0 < remaining (ths ! i)" by blast
    from run_rpc [OF this] show ?thesis by (metis prod.collapse)
  next
    case False
    have "\<exists>resp. th = Answered resp" if "th \<in> set ths" for th
    proof -
      from that obtain i where "i < length ths" "th = ths ! i" by (auto simp: in_set_conv_nth)
      with False have "remaining th = 0" by simp
      then show ?thesis by (cases th) simp_all
    qed
    then show ?thesis by (simp add: list_all_iff)
  qed
qed

lemma rpcs_terminate_witness:
  "\<exists>st. rpc_step sample_env sample_client sample_store LevelInfo ([Received sample_request], session_world) st"
  using rpcs_terminate [of 0 sample_env sample_client sample_store LevelInfo "[sample_request]" session_world] by simp

end
