(* ===== verification/Protocol.thy ===== *)
theory Protocol
  imports Rpcs
begin

text \<open>
  What the server promises, without its phases, statements and messages.  The abstract state is
  the registry, the list of sessions ever granted, and one ticket per RPC; \<open>serve\<close> are the
  abstract events of one RPC.  \<open>rpcs_refine_protocol\<close> is the forward simulation: every
  interleaving of the phases of the RPCs (\<open>rpc_step\<close>) is a run of the protocol.  What is proved
  of the protocol (\<open>protocol_safe\<close>) is carried over to the program.
\<close>

subsection \<open>The abstract protocol\<close>

record grant =
  gr_session :: string
  gr_owner :: string
  gr_created :: time

text \<open>The registry forgets the data, the update time and the object id of the rows.\<close>

definition grant_of :: "session_row \<Rightarrow> grant" where
  "grant_of r = \<lparr>gr_session = sr_session_id r, gr_owner = sr_user_id r, gr_created = sr_created_at r\<rparr>"

definition registry :: "database \<Rightarrow> grant list" where
  "registry d = map grant_of (sessions d)"

lemma grant_fields [simp]:
  "gr_session (grant_of r) = sr_session_id r" "gr_owner (grant_of r) = sr_user_id r"
  "gr_created (grant_of r) = sr_created_at r"
  by (simp_all add: grant_of_def)

lemma grant_registered [simp, intro]: "r \<in> set (sessions d) \<Longrightarrow> grant_of r \<in> set (registry d)"
  by (simp add: registry_def)

datatype ticket =
    Waiting
  | Known string
  | Holding string
  | GivingUp
  | Passed
  | AtLogin
  | HasCookie string

text \<open>Authentik answers the question of \<open>req\<close> with status 200 and this email.\<close>

definition logged_in :: "environment \<Rightarrow> client \<Rightarrow> check_request option \<Rightarrow> string \<Rightarrow> bool" where
  "logged_in e c req em \<longleftrightarrow> (\<exists>n resp. round_trip e n (login_request c req) = Inr resp \<and> rs_status resp = 200
     \<and> em = header_get (rs_header resp) ''X-Authentik-Email'')"

definition member :: "environment \<Rightarrow> user_row list \<Rightarrow> string \<Rightarrow> string \<Rightarrow> bool" where
  "member e us em uid \<longleftrightarrow> (\<exists>u \<in> set us. text_eq e (ur_email u) em \<and> ur_status u = ''active'' \<and> ur_id u = uid)"

definition clean_id :: "string \<Rightarrow> bool" where
  "clean_id i \<longleftrightarrow> length i = 32 \<and> list_all url_safe i"

inductive serve :: "environment \<Rightarrow> client \<Rightarrow> user_row list \<Rightarrow> check_request option
    \<Rightarrow> ticket \<times> grant list \<Rightarrow> ticket \<times> grant list \<Rightarrow> bool" for e c us req where
  to_login: "serve e c us req (Waiting, R) (AtLogin, R)"
| unavailable: "serve e c us req (Waiting, R) (Passed, R)"
| know: "logged_in e c req em \<Longrightarrow> serve e c us req (Waiting, R) (Known em, R)"
| reuse: "member e us em uid \<Longrightarrow> g \<in> set R \<Longrightarrow> gr_owner g = uid \<or> text_eq e (gr_owner g) uid \<Longrightarrow>
    serve e c us req (Known em, R) (Holding (gr_session g), R)"
| issue: "member e us em (gr_owner g) \<Longrightarrow> clean_id (gr_session g) \<Longrightarrow>
    serve e c us req (Known em, R) (Holding (gr_session g), R @ [g])"
| give_up: "serve e c us req (Known em, R) (GivingUp, R)"
| lost: "member e us em (gr_owner g) \<Longrightarrow> clean_id (gr_session g) \<Longrightarrow>
    serve e c us req (Known em, R) (GivingUp, R @ [g])"
| let_through: "serve e c us req (GivingUp, R) (Passed, R)"
| hand_over: "serve e c us req (Holding sid, R) (HasCookie sid, R)"

inductive protocol_step :: "environment \<Rightarrow> client \<Rightarrow> user_row list \<Rightarrow> check_request option list
    \<Rightarrow> ticket list \<times> grant list \<Rightarrow> ticket list \<times> grant list \<Rightarrow> bool" for e c us reqs where
  serve_one: "i < length ts \<Longrightarrow> serve e c us (reqs ! i) (ts ! i, R) (t, R') \<Longrightarrow>
    protocol_step e c us reqs (ts, R) (ts[i := t], R')"

inductive_cases protocol_step_elim: "protocol_step e c us reqs (ts, R) (ts', R')"

subsection \<open>What the protocol guarantees\<close>

text \<open>A ticket holds a session only when Authentik knows its email, a member has that email, and
  the session is registered for that member.\<close>

definition entitled :: "environment \<Rightarrow> client \<Rightarrow> user_row list \<Rightarrow> check_request option \<Rightarrow> grant list \<Rightarrow> string \<Rightarrow> bool" where
  "entitled e c us req R sid \<longleftrightarrow> (\<exists>em uid g. logged_in e c req em \<and> member e us em uid \<and> g \<in> set R
     \<and> gr_session g = sid \<and> (gr_owner g = uid \<or> text_eq e (gr_owner g) uid))"

fun ticket_ok :: "environment \<Rightarrow> client \<Rightarrow> user_row list \<Rightarrow> grant list \<Rightarrow> check_request option \<Rightarrow> ticket \<Rightarrow> bool" where
  "ticket_ok e c us R req (Known em) \<longleftrightarrow> logged_in e c req em"
| "ticket_ok e c us R req (Holding sid) \<longleftrightarrow> entitled e c us req R sid"
| "ticket_ok e c us R req (HasCookie sid) \<longleftrightarrow> entitled e c us req R sid"
| "ticket_ok e c us R req t \<longleftrightarrow> True"

text \<open>The grants a ticket may still add.\<close>

fun may_issue :: "ticket \<Rightarrow> nat" where
  "may_issue Waiting = 1"
| "may_issue (Known em) = 1"
| "may_issue t = 0"

text \<open>A grant that one of the RPCs accounts for.\<close>

definition earned :: "environment \<Rightarrow> client \<Rightarrow> user_row list \<Rightarrow> check_request option \<Rightarrow> grant \<Rightarrow> bool" where
  "earned e c us req g \<longleftrightarrow> clean_id (gr_session g) \<and> (\<exists>em. logged_in e c req em \<and> member e us em (gr_owner g))"

lemma entitled_more: "entitled e c us req R sid \<Longrightarrow> entitled e c us req (R @ new) sid"
  unfolding entitled_def by fastforce

lemma ticket_ok_more: "ticket_ok e c us R req t \<Longrightarrow> ticket_ok e c us (R @ new) req t"
  by (cases t) (simp_all add: entitled_more)

lemma serve_ok:
  assumes "serve e c us req (t, R) (t', R')" "ticket_ok e c us R req t"
  shows "ticket_ok e c us R' req t' \<and> (\<exists>new. R' = R @ new \<and> length new + may_issue t' \<le> may_issue t
    \<and> list_all (earned e c us req) new)"
  using assms(1)
proof cases
  case (reuse em uid g)
  with assms(2) show ?thesis unfolding entitled_def by (auto simp: entitled_def)
next
  case (issue em g)
  with assms(2) have "entitled e c us req (R @ [g]) (gr_session g)" unfolding entitled_def by auto
  with issue assms(2) show ?thesis by (auto simp: earned_def intro!: exI [of _ "[g]"])
next
  case (lost em g)
  with assms(2) show ?thesis by (auto simp: earned_def intro!: exI [of _ "[g]"])
qed (use assms(2) in auto)

lemma protocol_safe:
  assumes "(protocol_step e c us reqs)\<^sup>*\<^sup>* (ts, R) (ts', R')" "list_all2 (ticket_ok e c us R) reqs ts"
  shows "list_all2 (ticket_ok e c us R') reqs ts' \<and> (\<exists>new. R' = R @ new
    \<and> length new + sum_list (map may_issue ts') \<le> sum_list (map may_issue ts)
    \<and> (\<forall>g \<in> set new. \<exists>req \<in> set reqs. earned e c us req g))"
  using assms
proof (induction rule: rtranclp_induct2)
  case (step ts1 R1 ts2 R2)
  then obtain new where inv: "list_all2 (ticket_ok e c us R1) reqs ts1" "R1 = R @ new"
    "length new + sum_list (map may_issue ts1) \<le> sum_list (map may_issue ts)"
    "\<forall>g \<in> set new. \<exists>req \<in> set reqs. earned e c us req g" by blast
  from step.hyps(2) obtain i t where i: "i < length ts1" "serve e c us (reqs ! i) (ts1 ! i, R1) (t, R2)" "ts2 = ts1[i := t]"
    by (rule protocol_step_elim)
  have len: "length reqs = length ts1" using inv(1) by (rule list_all2_lengthD)
  have "ticket_ok e c us R1 (reqs ! i) (ts1 ! i)" using inv(1) i(1) len by (simp add: list_all2_conv_all_nth)
  from serve_ok [OF i(2) this] obtain more where t: "ticket_ok e c us R2 (reqs ! i) t" "R2 = R1 @ more"
    "length more + may_issue t \<le> may_issue (ts1 ! i)" "list_all (earned e c us (reqs ! i)) more" by blast
  have "list_all2 (ticket_ok e c us R2) reqs ts2"
    using inv(1) i len t(1) ticket_ok_more [of e c us R1 _ _ more]
    by (auto simp: t(2) list_all2_conv_all_nth nth_list_update)
  moreover have "sum_list (map may_issue ts2) + may_issue (ts1 ! i) = sum_list (map may_issue ts1) + may_issue t"
    using sum_list_update_nat [of i "map may_issue ts1" "may_issue t"] i(1) by (simp add: i(3) map_update)
  moreover have "\<exists>req \<in> set reqs. earned e c us req g" if "g \<in> set (new @ more)" for g
    using that inv(4) t(4) nth_mem [of i reqs] i(1) len by (auto simp: list_all_iff)
  ultimately show ?case using inv(2,3) t(2,3) by (intro conjI exI [of _ "new @ more"]) auto
qed auto


subsection \<open>The simulation\<close>

text \<open>What the ticket of an RPC in service is: its phases up to the answer are one abstract state.\<close>

fun phase_shows :: "mariadb_store \<Rightarrow> string \<Rightarrow> phase \<Rightarrow> ticket \<Rightarrow> bool" where
  "phase_shows s em (Finished (Inl err)) t \<longleftrightarrow> t = GivingUp"
| "phase_shows s em (Finished (Inr ck)) t \<longleftrightarrow>
     (if ck = [] then t = GivingUp else \<exists>sid. t = Holding sid \<and> ck = signCookie sid (dbHash s))"
| "phase_shows s em ph t \<longleftrightarrow> t = Known em"

fun shows_as :: "environment \<Rightarrow> client \<Rightarrow> mariadb_store \<Rightarrow> logger \<Rightarrow> rpc \<Rightarrow> ticket \<Rightarrow> bool" where
  "shows_as e c s lg (Received req) t \<longleftrightarrow> t = Waiting"
| "shows_as e c s lg (InService req em ph) t \<longleftrightarrow> phase_shows s em ph t"
| "shows_as e c s lg (Answered resp) t \<longleftrightarrow> (case t of
     Passed \<Rightarrow> resp = okResponse
   | AtLogin \<Rightarrow> \<exists>loc cks. loc \<noteq> [] \<and> resp = deniedRedirectTo loc cks
   | HasCookie sid \<Rightarrow> resp = deniedRedirectWithCookie ghostAdminPath
       (buildSetCookieHeader (wired e c s lg) (signCookie sid (dbHash s)))
   | _ \<Rightarrow> False)"

text \<open>A phase that leaves the registry alone and does not end the request is no abstract event;
  the others are one.\<close>

lemma registry_append [simp]: "registry (d\<lparr>sessions := sessions d @ rows\<rparr>) = registry d @ map grant_of rows"
  by (simp add: registry_def)

lemma update_registry [simp]: "registry (snd (update_session e data now sid t d)) = registry d"
  by (simp add: registry_def update_session_def grant_of_def)

lemma registry_sql_update: "registry (db (snd (run_sql e (update_session e data now sid) w))) = registry (db w)"
  using run_sql_db [of e "update_session e data now sid" w] by auto

lemma member_staff: "staff e d em uid \<longleftrightarrow> member e (users d) em uid"
  by (auto simp: staff_def member_def)

lemma insert_serves:
  assumes "staff e (db w) em (u_ID usr)" "advance e s lg (Insert em usr) w = (ph, w')"
  shows "\<exists>t. phase_shows s em ph t \<and> serve e c (users (db w)) req (Known em, registry (db w)) (t, registry (db w'))"
proof (cases rule: create_cases [of e w s "u_ID usr"])
  case (created sid oid)
  define g where "g = grant_of (created_row e s (u_ID usr) w oid sid)"
  have g: "gr_session g = sid" "gr_owner g = u_ID usr" by (simp_all add: g_def created_row_def)
  have "serve e c (users (db w)) req (Known em, registry (db w)) (Holding (gr_session g), registry (db w) @ [g])"
    by (rule issue) (use assms(1) session_id_format [OF created(1)] in \<open>simp_all add: g member_staff clean_id_def\<close>)
  moreover have "ph = Finished (Inr (signCookie sid (dbHash s)))" "registry (db w') = registry (db w) @ [g]"
    using assms(2) created(4) by (auto simp: created_session_def g_def)
  ultimately show ?thesis by (auto simp: g)
next
  case (no_entropy m pre)
  obtain r w1 where r: "create_session e s (u_ID usr) w = (r, w1)" by fastforce
  with no_entropy assms(2) show ?thesis by (auto intro: give_up)
next
  case (insert_failed m sid oid)
  define g where "g = grant_of (created_row e s (u_ID usr) w oid sid)"
  have g: "gr_session g = sid" "gr_owner g = u_ID usr" by (simp_all add: g_def created_row_def)
  have "serve e c (users (db w)) req (Known em, registry (db w)) (GivingUp, registry (db w) @ [g])"
    by (rule lost) (use assms(1) session_id_format [OF insert_failed(2)] in \<open>simp_all add: g member_staff clean_id_def\<close>)
  moreover obtain r w1 where r: "create_session e s (u_ID usr) w = (r, w1)" by fastforce
  then have "ph = Finished (Inl (Wrapped ''session store create: '' (Wrapped ''mariadb: inserting session: '' (ErrorText m) '''') []))"
    "db w' = db w1" using insert_failed(3) assms(2) by auto
  moreover have "registry (db w1) \<in> {registry (db w), registry (db w) @ [g]}"
    using insert_failed(4) r by (auto simp: g_def)
  ultimately show ?thesis using give_up [of e c "users (db w)" req em "registry (db w)"] by auto
qed

lemma refresh_serves:
  assumes "staff e (db w) em (u_ID usr)" "owned e (db w) (sr_session_id row) (u_ID usr)"
    and "advance e s lg (Refresh em usr row) w = (ph, w')"
  shows "\<exists>t. phase_shows s em ph t \<and> serve e c (users (db w)) req (Known em, registry (db w)) (t, registry (db w'))"
proof -
  obtain now0 w1 where n: "time_now e w = (now0, w1)" by fastforce
  obtain now w2 where n2: "time_now e w1 = (now, w2)" by fastforce
  let ?stmt = "update_session e (marshal_session_data (session_data_at now0 (u_ID usr) (sessionMaxAge s))) now (sr_session_id row)"
  obtain r w3 where r: "run_sql e ?stmt w2 = (r, w3)" by fastforce
  have "registry (db w3) = registry (db w)"
    using registry_sql_update [of e _ now "sr_session_id row" w2] r n n2 by (metis snd_conv time_now_db)
  then have reg: "registry (db w') = registry (db w)"
    using assms(3) n n2 r by (cases r) (auto simp: buildSessionData_def)
  show ?thesis
  proof (cases r)
    case (Inl err)
    with assms(3) n n2 r have "\<exists>x. ph = Finished (Inl x)" by (auto simp: buildSessionData_def)
    with reg show ?thesis by (auto intro: give_up)
  next
    case (Inr u)
    with assms(3) n n2 r have ph: "ph = Finished (Inr (signCookie (sr_session_id row) (dbHash s)))"
      by (auto simp: buildSessionData_def)
    obtain q where q: "q \<in> set (sessions (db w))" "sr_session_id q = sr_session_id row"
      "sr_user_id q = u_ID usr \<or> text_eq e (sr_user_id q) (u_ID usr)" using assms(2) by (auto simp: owned_def)
    have "serve e c (users (db w)) req (Known em, registry (db w)) (Holding (gr_session (grant_of q)), registry (db w))"
      by (rule reuse [where uid = "u_ID usr"]) (use assms(1) q in \<open>auto simp: member_staff\<close>)
    then show ?thesis using ph reg q(2) by auto
  qed
qed

lemma advance_serves:
  assumes "phase_ok e s (db w) em ph" "\<forall>r. ph \<noteq> Finished r" "advance e s lg ph w = (ph', w')"
  shows "\<exists>t. phase_shows s em ph' t
    \<and> (serve e c (users (db w)) req)\<^sup>=\<^sup>= (Known em, registry (db w)) (t, registry (db w'))"
proof (cases ph)
  case (Arrived ck em')
  with assms give_up [of e c "users (db w)" req em "registry (db w)"] show ?thesis by (auto split: if_splits)
next
  case (Verify em')
  obtain r w1 where r: "find_by_email e em w = (r, w1)" by fastforce
  have "db w1 = db w" using find_by_email_frame(1) [of e em w] r by simp
  with assms r Verify give_up [of e c "users (db w)" req em "registry (db w)"] show ?thesis
    by (cases r) (auto split: if_splits)
next
  case (LookUp em' usr)
  with assms have em: "em' = em" "staff e (db w) em (u_ID usr)" by simp_all
  from lookup_ok(2) [OF em(2), of s lg ph' w'] assms(3) LookUp em(1) have db: "db w' = db w" by simp
  consider err where "ph' = Finished (Inl err)" | "phase_shows s em ph' (Known em)"
    using assms(3) LookUp em(1) by (auto simp: Let_def split_def split: sum.splits if_splits)
  then show ?thesis using db give_up [of e c "users (db w)" req em "registry (db w)"] by cases auto
next
  case (Refresh em' usr row)
  with assms refresh_serves [of e w em usr row s lg ph' w' c req] show ?thesis by auto
next
  case (Insert em' usr)
  with assms insert_serves [of e w em usr s lg ph' w' c req] show ?thesis by auto
next
  case (Finished r)
  with assms show ?thesis by simp
qed


lemma vouched_logged_in: "vouched e c w req em \<Longrightarrow> logged_in e c req em"
  unfolding vouched_def logged_in_def by blast

lemma received_serves:
  assumes "rpc_advance e c s lg (Received req) w = (p', w')"
  shows "\<exists>t. shows_as e c s lg p' t \<and> serve e c us req (Waiting, registry (db w)) (t, registry (db w'))"
proof -
  note ok = received_ok [OF assms]
  consider (pass) "p' = Answered okResponse"
    | (login) loc cks where "loc \<noteq> []" "p' = Answered (deniedRedirectTo loc cks)"
    | (service) em ck where "p' = InService req em (Arrived ck em)"
    using assms by (auto simp: Let_def split_def split: sum.splits if_splits)
  then show ?thesis
  proof cases
    case pass
    then show ?thesis using unavailable [of e c us req "registry (db w)"] ok(3) by (intro exI [of _ Passed]) simp
  next
    case login
    then show ?thesis using to_login [of e c us req "registry (db w)"] ok(3) by (intro exI [of _ AtLogin]) auto
  next
    case service
    with ok(1) have "logged_in e c req em" by (auto intro: vouched_logged_in)
    with service show ?thesis using know [of e c req em us "registry (db w)"] ok(3) by auto
  qed
qed

lemma finished_serves:
  assumes "rpc_advance e c s lg (InService req em (Finished r)) w = (p', w')" "phase_shows s em (Finished r) t"
  shows "\<exists>t'. shows_as e c s lg p' t' \<and> serve e c us req (t, registry (db w)) (t', registry (db w'))"
proof -
  have db: "db w' = db w" using assms(1) by (auto simp: reply_def split: sum.splits if_splits)
  show ?thesis
  proof (cases "t = GivingUp")
    case True
    with assms have "p' = Answered okResponse" by (auto simp: reply_def split: sum.splits if_splits)
    with True db show ?thesis using let_through [of e c us req "registry (db w)"] by (intro exI [of _ Passed]) simp
  next
    case False
    with assms(2) obtain sid where sid: "t = Holding sid" "r = Inr (signCookie sid (dbHash s))"
      by (cases r) (auto split: if_splits)
    with assms(1) have "p' = Answered (deniedRedirectWithCookie ghostAdminPath
        (buildSetCookieHeader (wired e c s lg) (signCookie sid (dbHash s))))" by (auto simp: reply_def)
    with sid db show ?thesis using hand_over [of e c us req sid "registry (db w)"] by (intro exI [of _ "HasCookie sid"]) simp
  qed
qed

lemma rpc_serves:
  assumes "rpc_ok e c s lg w req p" "shows_as e c s lg p t" "rpc_advance e c s lg p w = (p', w')"
  shows "\<exists>t'. shows_as e c s lg p' t' \<and> (serve e c (users (db w)) req)\<^sup>=\<^sup>= (t, registry (db w)) (t', registry (db w'))"
proof (cases p)
  case (Received req')
  with assms received_serves [of e c s lg req w p' w' "users (db w)"] show ?thesis by auto
next
  case (InService req' em ph)
  with assms(1) have ok: "req' = req" "phase_ok e s (db w) em ph" by simp_all
  show ?thesis
  proof (cases "\<exists>r. ph = Finished r")
    case True
    then obtain r where "ph = Finished r" by blast
    with assms(2,3) InService ok(1) finished_serves [of e c s lg req em r w p' w' t "users (db w)"] show ?thesis by auto
  next
    case False
    obtain q v where q: "advance e s lg ph w = (q, v)" by fastforce
    have "p' = InService req em q" "w' = v" using assms(3) InService False q ok(1) by (cases ph; simp add: rpc_advance_service)+
    moreover have "t = Known em" using assms(2) InService False by (cases ph) auto
    moreover have "\<forall>r. ph \<noteq> Finished r" using False by blast
    ultimately show ?thesis using advance_serves [OF ok(2) _ q, of c req] by auto
  qed
next
  case (Answered resp)
  with assms show ?thesis by auto
qed

text \<open>The invariant and the relation of the simulation.\<close>

definition rpcs_inv :: "environment \<Rightarrow> client \<Rightarrow> mariadb_store \<Rightarrow> logger \<Rightarrow> user_row list \<Rightarrow> check_request option list
    \<Rightarrow> rpc list \<times> world \<Rightarrow> bool" where
  "rpcs_inv e c s lg us reqs st \<longleftrightarrow> users (db (snd st)) = us \<and> list_all2 (rpc_ok e c s lg (snd st)) reqs (fst st)"

definition rpcs_show :: "environment \<Rightarrow> client \<Rightarrow> mariadb_store \<Rightarrow> logger \<Rightarrow> rpc list \<times> world \<Rightarrow> ticket list \<times> grant list \<Rightarrow> bool" where
  "rpcs_show e c s lg st a \<longleftrightarrow> list_all2 (shows_as e c s lg) (fst st) (fst a) \<and> snd a = registry (db (snd st))"

lemma rpcs_inv_step:
  assumes "rpcs_inv e c s lg us reqs x" "rpc_step e c s lg x y"
  shows "rpcs_inv e c s lg us reqs y"
proof -
  obtain ths w ths' w' where xy: "x = (ths, w)" "y = (ths', w')" by (cases x, cases y) auto
  have "(rpc_step e c s lg)\<^sup>*\<^sup>* (ths, w) (ths', w')" using assms(2) by (simp add: xy)
  from system_safe [OF this, of reqs] assms(1) show ?thesis by (auto simp: rpcs_inv_def xy later_def grows_def)
qed

lemma rpcs_sim_step:
  assumes "rpcs_inv e c s lg us reqs x" "rpcs_show e c s lg x a" "rpc_step e c s lg x y"
  shows "\<exists>b. rpcs_show e c s lg y b \<and> (protocol_step e c us reqs)\<^sup>=\<^sup>= a b"
proof -
  obtain ths w ths' w' where xy: "x = (ths, w)" "y = (ths', w')" by (cases x, cases y) auto
  obtain ts R where a: "a = (ts, R)" by fastforce
  have us: "users (db w) = us" and inv: "list_all2 (rpc_ok e c s lg w) reqs ths"
    and sim: "list_all2 (shows_as e c s lg) ths ts" and R: "R = registry (db w)"
    using assms(1,2) by (simp_all add: rpcs_inv_def rpcs_show_def xy a)
  from assms(3) obtain i p where i: "i < length ths" "rpc_advance e c s lg (ths ! i) w = (p, w')" "ths' = ths[i := p]"
    unfolding xy by (rule rpc_step_elim)
  have len: "length ts = length ths" "length reqs = length ths" using sim inv by (auto dest: list_all2_lengthD)
  have "rpc_ok e c s lg w (reqs ! i) (ths ! i)" "shows_as e c s lg (ths ! i) (ts ! i)"
    using inv sim i(1) len by (simp_all add: list_all2_conv_all_nth)
  from rpc_serves [OF this i(2)] obtain t where t: "shows_as e c s lg p t"
    "(serve e c us (reqs ! i))\<^sup>=\<^sup>= (ts ! i, R) (t, registry (db w'))" unfolding us R by blast
  have "rpcs_show e c s lg y (ts[i := t], registry (db w'))"
    using sim t(1) i(1) len by (auto simp: rpcs_show_def xy i(3) list_all2_conv_all_nth nth_list_update)
  moreover have "(protocol_step e c us reqs)\<^sup>=\<^sup>= a (ts[i := t], registry (db w'))"
    using t(2) serve_one [of i ts e c us reqs] i(1) len by (auto simp: a)
  ultimately show ?thesis by blast
qed

interpretation protocol_sim: forward_simulation "rpc_step e c s lg" "protocol_step e c us reqs"
    "rpcs_inv e c s lg us reqs" "rpcs_show e c s lg" for e c s lg us reqs
  by unfold_locales (blast intro: rpcs_inv_step rpcs_sim_step)+

lemma rpcs_protocol_run:
  assumes "(rpc_step e c s lg)\<^sup>*\<^sup>* (map Received reqs, w) (ths, w')"
  shows "\<exists>ts. (protocol_step e c (users (db w)) reqs)\<^sup>*\<^sup>* (map (\<lambda>req. Waiting) reqs, registry (db w)) (ts, registry (db w'))
    \<and> list_all2 (shows_as e c s lg) ths ts"
proof -
  have "rpcs_inv e c s lg (users (db w)) reqs (map Received reqs, w)"
    "rpcs_show e c s lg (map Received reqs, w) (map (\<lambda>req. Waiting) reqs, registry (db w))"
    by (simp_all add: rpcs_inv_def rpcs_show_def list_all2_conv_all_nth)
  from protocol_sim.run_simulated [OF assms this] show ?thesis by (auto simp: rpcs_show_def)
qed

text \<open>C4 (refinement): the server refines the protocol.  However the phases of the RPCs interleave and whichever
  statements fail, there is a run of the abstract protocol over the same requests that starts with
  the same registry and ends with the one in the table, and in which every ticket is where its
  RPC is: still waiting, known to Authentik, holding a session, passed, sent to the login, or
  answered with the cookie of the session it holds.\<close>

theorem rpcs_refine_protocol:
  assumes "(rpc_step e c s lg)\<^sup>*\<^sup>* (map Received reqs, w) (ths, w')"
  shows "\<exists>ts. (protocol_step e c (users (db w)) reqs)\<^sup>*\<^sup>* (map (\<lambda>req. Waiting) reqs, registry (db w)) (ts, registry (db w'))
    \<and> list_all2 (shows_as e c s lg) ths ts"
  by (rule rpcs_protocol_run [OF assms])


lemma planted_same:
  "deniedRedirectWithCookie p (buildSetCookieHeader sv (signCookie i k)) = deniedRedirectWithCookie p (buildSetCookieHeader sv (signCookie j k))
     \<longleftrightarrow> i = j"
  by (simp add: deniedRedirectWithCookie_def buildSetCookieHeader_def) (auto simp: signCookie_eq_iff)

lemma rpcs_refine_protocol_witness:
  "\<exists>R. (protocol_step sample_env sample_client (users (db session_world)) [sample_request])\<^sup>*\<^sup>*
     ([Waiting], registry (db session_world)) ([HasCookie ''old''], R)"
proof -
  let ?sv = "wired sample_env sample_client sample_store LevelInfo"
  from rpcs_refine_protocol [OF planted_run [of LevelInfo]] obtain t where t: "shows_as sample_env sample_client sample_store LevelInfo
      (Answered (deniedRedirectWithCookie ghostAdminPath (buildSetCookieHeader ?sv (signCookie ''old'' ''k3y'')))) t"
    and run: "(protocol_step sample_env sample_client (users (db session_world)) [sample_request])\<^sup>*\<^sup>*
     ([Waiting], registry (db session_world)) ([t], registry (db (snd (ext_check ?sv sample_request session_world))))"
    by (auto simp: list_all2_Cons1)
  from t have "t = HasCookie ''old''"
    using redirects_differ [symmetric] by (auto simp: planted_same split: ticket.splits)
  with run show ?thesis by blast
qed

lemma ids_clean_registry: "ids_clean d \<longleftrightarrow> list_all (\<lambda>g. clean_id (gr_session g)) (registry d)"
  by (simp add: ids_clean_def clean_id_def registry_def list_all_iff)

lemma rpcs_new_grants:
  assumes "(rpc_step e c s lg)\<^sup>*\<^sup>* (map Received reqs, w) (ths, w')"
  shows "\<exists>new. registry (db w') = registry (db w) @ new \<and> length new \<le> length reqs
    \<and> (\<forall>g \<in> set new. \<exists>req \<in> set reqs. earned e c (users (db w)) req g)"
proof -
  from rpcs_protocol_run [OF assms] obtain ts where
    "(protocol_step e c (users (db w)) reqs)\<^sup>*\<^sup>* (map (\<lambda>req. Waiting) reqs, registry (db w)) (ts, registry (db w'))" by blast
  from protocol_safe [OF this] show ?thesis by (auto simp: list_all2_conv_all_nth comp_def sum_list_triv)
qed

text \<open>C17 (type): however RPCs interleave and whatever fails, the sessions table stays well-formed and only grows:
  every session id is 32 URL-safe characters, so that its signature is a valid cookie value; every session keeps its place, id,
  owner and creation time; at most one is added per RPC, and each added one belongs to an active
  member whose email Authentik gave for one of the requests.\<close>

theorem rpcs_extend_registry:
  assumes "(rpc_step e c s lg)\<^sup>*\<^sup>* (map Received reqs, w) (ths, w')" "ids_clean (db w)"
  shows "ids_clean (db w')
    \<and> (\<forall>row \<in> set (sessions (db w')). clean_value (signCookie (sr_session_id row) (dbHash s)))
    \<and> (\<exists>new. registry (db w') = registry (db w) @ new \<and> length new \<le> length reqs
        \<and> (\<forall>g \<in> set new. \<exists>req \<in> set reqs. \<exists>em. logged_in e c req em \<and> member e (users (db w)) em (gr_owner g)))"
proof -
  from rpcs_new_grants [OF assms(1)] obtain new where new: "registry (db w') = registry (db w) @ new"
    "length new \<le> length reqs" "\<forall>g \<in> set new. \<exists>req \<in> set reqs. earned e c (users (db w)) req g" by blast
  then have "ids_clean (db w')" using assms(2) by (auto simp: ids_clean_registry list_all_iff earned_def)
  then show ?thesis using new clean_signed by (fastforce simp: ids_clean_def list_all_iff earned_def)
qed

lemma rpcs_extend_registry_witness:
  "\<exists>resp w' new. (rpc_step sample_env sample_client sample_store LevelInfo)\<^sup>*\<^sup>* (map Received [sample_request], sample_world)
     ([Answered resp], w') \<and> ids_clean (db w') \<and> registry (db w') = registry (db sample_world) @ new \<and> length new \<le> 1"
proof -
  have clean: "ids_clean (db sample_world)" by (simp add: ids_clean_def sample_world_def world_of_def sample_db_def)
  obtain resp where "fst (ext_check (wired sample_env sample_client sample_store LevelInfo) sample_request sample_world) = (resp, None)"
    using always_answers [of "wired sample_env sample_client sample_store LevelInfo" sample_request sample_world] by auto
  note run = run_alone [OF this]
  from rpcs_extend_registry [OF run clean] run show ?thesis by fastforce
qed

end
