(* ===== verification/Secrets.thy ===== *)
theory Secrets
  imports Protocol
begin

text \<open>
  What the signing secret can be read from.  Two programs that differ in the secret alone are run
  on the same requests and the same environment: above the debug level every step of one is a
  step of the other that leaves the same world, log and tables included, and their RPCs stand at the
  same phases.  The two runs differ only in the signatures inside the cookies they plant.
\<close>

fun same_phase :: "phase \<Rightarrow> phase \<Rightarrow> bool" where
  "same_phase (Finished (Inr a)) q \<longleftrightarrow> (\<exists>b. q = Finished (Inr b) \<and> (a = [] \<longleftrightarrow> b = []))"
| "same_phase p q \<longleftrightarrow> p = q"

text \<open>Two answers of the server that differ at most in the value of the cookie.\<close>

definition same_answer :: "server \<Rightarrow> check_response \<Rightarrow> check_response \<Rightarrow> bool" where
  "same_answer sv a b \<longleftrightarrow> a = b \<or> (\<exists>v v'. a = deniedRedirectWithCookie ghostAdminPath (buildSetCookieHeader sv v)
     \<and> b = deniedRedirectWithCookie ghostAdminPath (buildSetCookieHeader sv v'))"

fun same_rpc :: "server \<Rightarrow> rpc \<Rightarrow> rpc \<Rightarrow> bool" where
  "same_rpc sv (InService req em ph) y \<longleftrightarrow> (\<exists>ph'. y = InService req em ph' \<and> same_phase ph ph')"
| "same_rpc sv (Answered a) y \<longleftrightarrow> (\<exists>b. y = Answered b \<and> same_answer sv a b)"
| "same_rpc sv (Received req) y \<longleftrightarrow> y = Received req"

lemma same_phase_refl [simp]: "same_phase p p"
  by (cases "(p, p)" rule: same_phase.cases) auto

lemma same_answer_refl [simp]: "same_answer sv a a"
  by (simp add: same_answer_def)

lemma quiet: "LevelInfo \<le> lg \<Longrightarrow> log_at lg LevelDebug m a w = w"
  by (simp add: log_at_def)

lemma advance_rekeyed:
  assumes "LevelInfo \<le> lg" "same_phase p q" "advance e s lg p w = (p', w')"
  shows "\<exists>q'. advance e (s\<lparr>dbHash := k\<rparr>) lg q w = (q', w') \<and> same_phase p' q'"
proof (cases p)
  case (Arrived ck em)
  with assms show ?thesis by (auto simp: quiet)
next
  case (Verify em)
  with assms show ?thesis by auto
next
  case (LookUp em usr)
  with assms show ?thesis by (auto simp: Let_def split_def)
next
  case (Refresh em usr row)
  with assms show ?thesis
    by (auto simp: quiet buildSessionData_def Let_def split_def split: sum.splits)
next
  case (Insert em usr)
  obtain r w1 where r: "create_session e s (u_ID usr) w = (r, w1)" by fastforce
  have "s_SignedCookieValue ses \<noteq> []" if "r = Inr ses" for ses
    using mariadb_sessions.create_signed [of e s "u_ID usr" w ses] r that by (simp add: mariadb_session_store_def)
  with assms Insert r show ?thesis by (cases r) (auto simp: quiet create_rekey)
next
  case (Finished r)
  with assms show ?thesis by (cases r) auto
qed


lemma reply_rekeyed:
  assumes "same_phase (Finished r) (Finished r')" "reply (wired e c s lg) em r w = (a, w')"
  shows "\<exists>b. reply (wired e c (s\<lparr>dbHash := k\<rparr>) lg) em r' w = (b, w') \<and> same_answer (wired e c s lg) a b"
proof -
  have header: "buildSetCookieHeader (wired e c (s\<lparr>dbHash := k\<rparr>) lg) v = buildSetCookieHeader (wired e c s lg) v" for v
    by (simp add: buildSetCookieHeader_def)
  show ?thesis
  proof (cases r)
    case (Inl err)
    with assms show ?thesis by (auto simp: reply_def)
  next
    case (Inr v)
    with assms(1) obtain v' where "r' = Inr v'" "v = [] \<longleftrightarrow> v' = []" by auto
    with assms(2) Inr show ?thesis by (auto simp: reply_def header same_answer_def)
  qed
qed

lemma rpc_rekeyed:
  assumes "LevelInfo \<le> lg" "same_rpc (wired e c s lg) x y" "rpc_advance e c s lg x w = (x', w')"
  shows "\<exists>y'. rpc_advance e c (s\<lparr>dbHash := k\<rparr>) lg y w = (y', w') \<and> same_rpc (wired e c s lg) x' y'"
proof (cases x)
  case (Received req)
  have noted: "noted (wired e c (s\<lparr>dbHash := k\<rparr>) lg) req w = noted (wired e c s lg) req w" by (simp add: noted_def)
  obtain r w1 where "Check e c (cookie_of req) (host_of req) (proto_of req) (uri_of req) (noted (wired e c s lg) req w) = (r, w1)"
    by fastforce
  with assms(2,3) Received show ?thesis by (cases r) (auto simp: noted split: if_splits)
next
  case (InService req em ph)
  with assms(2) obtain ph' where y: "y = InService req em ph'" "same_phase ph ph'" by auto
  show ?thesis
  proof (cases "\<exists>r. ph = Finished r")
    case True
    then obtain r r' where r: "ph = Finished r" "ph' = Finished r'" using y(2) by (cases ph; auto) (metis old.sum.exhaust same_phase.simps)
    obtain a w1 where a: "reply (wired e c s lg) em r w = (a, w1)" by fastforce
    with reply_rekeyed [of r r' e c s lg em w a w1 k] y assms(3) InService r show ?thesis by auto
  next
    case False
    then have same: "ph' = ph" using y(2) by (cases ph) auto
    obtain q v where q: "advance e s lg ph w = (q, v)" by fastforce
    from advance_rekeyed [OF assms(1) same_phase_refl q] obtain q' where "advance e (s\<lparr>dbHash := k\<rparr>) lg ph w = (q', v)" "same_phase q q'"
      by blast
    with False q assms(3) InService y same show ?thesis by (cases ph) (auto simp: rpc_advance_service)
  qed
next
  case (Answered a)
  with assms show ?thesis by auto
qed

lemma same_remaining: "same_rpc sv x y \<Longrightarrow> remaining x = remaining y"
  by (cases x; cases "same_rpc sv x y")
    (auto elim!: same_phase.elims)


subsection \<open>The two runs\<close>

definition same_runs :: "server \<Rightarrow> rpc list \<times> world \<Rightarrow> rpc list \<times> world \<Rightarrow> bool" where
  "same_runs sv x y \<longleftrightarrow> list_all2 (same_rpc sv) (fst x) (fst y) \<and> snd x = snd y"

lemma rekey_sim_step:
  assumes "LevelInfo \<le> lg" "same_runs (wired e c s lg) x a" "rpc_step e c s lg x y"
  shows "\<exists>b. same_runs (wired e c s lg) y b \<and> (rpc_step e c (s\<lparr>dbHash := k\<rparr>) lg)\<^sup>=\<^sup>= a b"
proof -
  obtain ths w ths' w' where xy: "x = (ths, w)" "y = (ths', w')" by (cases x, cases y) auto
  obtain ths2 where a: "a = (ths2, w)" and all: "list_all2 (same_rpc (wired e c s lg)) ths ths2"
    using assms(2) by (cases a) (auto simp: same_runs_def xy)
  from assms(3) obtain i p where i: "i < length ths" "0 < remaining (ths ! i)" "rpc_advance e c s lg (ths ! i) w = (p, w')"
    "ths' = ths[i := p]" unfolding xy by (rule rpc_step_elim)
  have len: "length ths2 = length ths" using all by (auto dest: list_all2_lengthD)
  have same: "same_rpc (wired e c s lg) (ths ! i) (ths2 ! i)" using all i(1) by (simp add: list_all2_conv_all_nth)
  from rpc_rekeyed [OF assms(1) this i(3)] obtain q where q: "rpc_advance e c (s\<lparr>dbHash := k\<rparr>) lg (ths2 ! i) w = (q, w')"
    "same_rpc (wired e c s lg) p q" by blast
  have "rpc_step e c (s\<lparr>dbHash := k\<rparr>) lg (ths2, w) (ths2[i := q], w')"
    using i(1,2) len same_remaining [OF same] by (intro run_rpc q(1)) simp_all
  moreover have "same_runs (wired e c s lg) y (ths2[i := q], w')"
    using all q(2) i(1) len by (auto simp: same_runs_def xy i(4) list_all2_conv_all_nth nth_list_update)
  ultimately show ?thesis by (auto simp: a)
qed

interpretation rekey_sim: forward_simulation "rpc_step e c s lg" "rpc_step e c (s\<lparr>dbHash := k\<rparr>) lg"
    "\<lambda>st. LevelInfo \<le> lg" "same_runs (wired e c s lg)" for e c s lg k
  by unfold_locales (blast intro: rekey_sim_step)+

text \<open>C9 (safety): with the log threshold at \<open>info\<close> or above, nothing that RPCs leave behind depends on the
  signing secret.  For every interleaving under one secret there is one under any other that ends with the
  same log, tables and requests to Authentik, and in which every RPC is answered alike, but for the
  value of the cookie where one is planted: neither the secret nor a signature can be read from the rest.\<close>

theorem secret_only_in_cookies:
  assumes "(rpc_step e c s lg)\<^sup>*\<^sup>* (map Received reqs, w) (ths, w')" "LevelInfo \<le> lg"
  shows "\<exists>ths'. (rpc_step e c (s\<lparr>dbHash := k\<rparr>) lg)\<^sup>*\<^sup>* (map Received reqs, w) (ths', w')
    \<and> list_all2 (\<lambda>x y. case x of
          Received req \<Rightarrow> y = Received req
        | InService req em ph \<Rightarrow> \<exists>ph'. y = InService req em ph' \<and> same_phase ph ph'
        | Answered a \<Rightarrow> y = Answered a \<or> (\<exists>v v'. a = deniedRedirectWithCookie ghostAdminPath (buildSetCookieHeader (wired e c s lg) v)
            \<and> y = Answered (deniedRedirectWithCookie ghostAdminPath (buildSetCookieHeader (wired e c s lg) v')))) ths ths'"
proof -
  have "same_runs (wired e c s lg) (map Received reqs, w) (map Received reqs, w)"
    by (simp add: same_runs_def list_all2_conv_all_nth)
  from rekey_sim.run_simulated [OF assms(1,2) this, of k] obtain ths' where
    run: "(rpc_step e c (s\<lparr>dbHash := k\<rparr>) lg)\<^sup>*\<^sup>* (map Received reqs, w) (ths', w')"
    and all: "list_all2 (same_rpc (wired e c s lg)) ths ths'" by (auto simp: same_runs_def)
  have "case x of Received req \<Rightarrow> y = Received req
      | InService req em ph \<Rightarrow> \<exists>ph'. y = InService req em ph' \<and> same_phase ph ph'
      | Answered a \<Rightarrow> y = Answered a \<or> (\<exists>v v'. a = deniedRedirectWithCookie ghostAdminPath (buildSetCookieHeader (wired e c s lg) v)
          \<and> y = Answered (deniedRedirectWithCookie ghostAdminPath (buildSetCookieHeader (wired e c s lg) v')))"
    if "same_rpc (wired e c s lg) x y" for x y
    using that by (cases x) (auto simp: same_answer_def)
  with run all show ?thesis by (blast intro: list_all2_mono)
qed

lemma secret_only_in_cookies_witness:
  "\<exists>b. (rpc_step sample_env sample_client \<lparr>dbHash = ''other'', sessionMaxAge = 180\<rparr> LevelInfo)\<^sup>*\<^sup>* ([Received sample_request], session_world)
     ([Answered b], snd (ext_check (wired sample_env sample_client sample_store LevelInfo) sample_request session_world))"
proof -
  have "LevelInfo \<le> LevelInfo" by simp
  from secret_only_in_cookies [OF planted_run this, of "''other''"] show ?thesis
    by (auto simp: list_all2_Cons1)
qed

end
