(* ===== verification/Login.thy ===== *)
theory Login
  imports ExtAuth
begin

text \<open>
  The login as the browser sees it.  \<open>rpc_decision\<close> is the answer to every RPC while the database
  and the random source work; \<open>login_flow\<close> follows a staff member from the request without the
  Ghost cookie to the retry that is let through.
\<close>

text \<open>The service when nothing fails.\<close>

lemma ensure_decision:
  assumes "\<forall>k. sql_fault e k = None" "\<forall>k. entropy e k \<noteq> None" "\<not> hasGhostSessionCookie ck"
    and "EnsureSession (mariadb_service e s lg) ck em w = (r, w')"
  shows "case fst (select_user e em (tie e (sql_calls w)) (db w)) of
      Inl err \<Rightarrow> \<exists>x. r = Inl x
    | Inr u \<Rightarrow> if ur_status u = ''active''
        then \<exists>row \<in> set (sessions (db w')). (sr_user_id row = ur_id u \<or> text_eq e (sr_user_id row) (ur_id u))
          \<and> r = Inr (signCookie (sr_session_id row) (dbHash s))
        else \<exists>x. r = Inl x"
proof -
  let ?sv = "mariadb_service e s lg"
  have user: "fst (find_by_email e em (asked ?sv em w)) = (case fst (select_user e em (tie e (sql_calls w)) (db w)) of
      Inl err \<Rightarrow> if errors_is err SqlErrNoRows then Inl (Sentinel ErrUserNotFound) else Inl (Wrapped ''mariadb: querying users: '' err '''')
    | Inr row \<Rightarrow> Inr \<lparr>u_ID = ur_id row, u_Email = ur_email row, u_Status = ur_status row\<rparr>)"
    using assms(1) by (simp add: find_by_email_def run_sql_ok split: sum.split)
  show ?thesis
  proof (cases rule: ensure_cases [of ck ?sv em w])
    case fast
    with assms(3) show ?thesis by simp
  next
    case (no_user err w2)
    with user assms(4) show ?thesis by (auto split: sum.splits if_splits)
  next
    case (inactive usr w2)
    with user assms(4) show ?thesis by (auto simp: IsActive_def split: sum.splits if_splits)
  next
    case (lookup_failed usr w2 err w3)
    then have "find_by_user_id e s (u_ID usr) w2 = (Inl err, w3)" by simp
    from find_error_fault(1) [OF this] assms(1) show ?thesis by auto
  next
    case (reused usr w2 ses w3)
    then have "find_by_user_id e s (u_ID usr) w2 = (Inr (Some ses), w3)" by simp
    then obtain row row' where "row' \<in> set (sessions (db w3))" "text_eq e (sr_user_id row) (u_ID usr)"
      "ses = session_of s row" "sr_session_id row' = sr_session_id row" "sr_user_id row' = sr_user_id row"
      by (rule find_some)
    with reused user assms(4) show ?thesis
      by (auto simp: IsActive_def session_of_def split: sum.splits if_splits intro!: bexI [of _ row'])
  next
    case (create_failed usr w2 w3 err w4)
    then have "create_session e s (u_ID usr) w3 = (Inl err, w4)" by simp
    from create_error_fault(1) [OF this] assms(1,2) show ?thesis by auto
  next
    case (created usr w2 w3 ses w4)
    then have "create_session e s (u_ID usr) w3 = (Inr ses, w4)" by simp
    then obtain row where "sessions (db w4) = sessions (db w3) @ [row]" "sr_user_id row = u_ID usr"
      "sr_session_id row = s_SessionID ses" "s_SignedCookieValue ses = signCookie (s_SessionID ses) (dbHash s)"
      by (rule create_some)
    with created user assms(4) show ?thesis
      by (auto simp: IsActive_def split: sum.splits if_splits)
  qed
qed

text \<open>What \<open>ext_check\<close> answers, by its three sources of information.\<close>

lemma rpc_answer:
  assumes "endpointURL c \<noteq> []" "url_error e (endpointURL c) = None"
    and "\<forall>k. sql_fault e k = None" "\<forall>k. entropy e k \<noteq> None"
  shows "let (ans, w') = ext_check (wired e c s lg) req w in
    case round_trip e (length (http_sent w)) (login_request c req) of
      Inl msg \<Rightarrow> ans = (okResponse, None)
    | Inr resp \<Rightarrow> (case read_response resp of
        Inl err \<Rightarrow> ans = (okResponse, None)
      | Inr (em, loc, cks) \<Rightarrow>
          if loc \<noteq> [] then ans = (deniedRedirectTo loc cks, None)
          else if hasGhostSessionCookie (cookie_of req) then ans = (okResponse, None)
          else (case fst (select_user e em (tie e (sql_calls w)) (db w)) of
              Inl err \<Rightarrow> ans = (okResponse, None)
            | Inr u \<Rightarrow> if ur_status u = ''active''
                then \<exists>row \<in> set (sessions (db w')). (sr_user_id row = ur_id u \<or> text_eq e (sr_user_id row) (ur_id u))
                  \<and> ans = (deniedRedirectWithCookie ghostAdminPath
                      (buildSetCookieHeader (wired e c s lg) (signCookie (sr_session_id row) (dbHash s))), None)
                else ans = (okResponse, None)))"
proof -
  define w2 where "w2 = (noted (wired e c s lg) req w)\<lparr>http_sent := http_sent w @ [login_request c req]\<rparr>"
  have w2: "db w2 = db w" "sql_calls w2 = sql_calls w" by (simp_all add: w2_def)
  have chk: "Check e c (cookie_of req) (host_of req) (proto_of req) (uri_of req) (noted (wired e c s lg) req w)
      = ((case round_trip e (length (http_sent w)) (login_request c req) of
           Inl msg \<Rightarrow> Inl (Wrapped ''authentik forward auth: request failed: '' (ErrorText msg) '''')
         | Inr resp \<Rightarrow> read_response resp), w2)"
    using assms(1,2)
    by (cases "round_trip e (length (http_sent w)) (login_request c req)")
      (simp_all add: w2_def Check_def new_request_def http_do_def login_request_def authentik_request_def)
  show ?thesis
  proof (cases "round_trip e (length (http_sent w)) (login_request c req)")
    case (Inl msg)
    with chk show ?thesis by (simp add: ext_check_eq)
  next
    case (Inr resp)
    note rt = this
    show ?thesis
    proof (cases "read_response resp")
      case (Inl err)
      with chk rt show ?thesis by (simp add: ext_check_eq)
    next
      case (Inr a)
      obtain em loc cks where a: "a = (em, loc, cks)" by (metis prod_cases3)
      show ?thesis
      proof (cases "loc = [] \<and> \<not> hasGhostSessionCookie (cookie_of req)")
        case False
        with chk rt Inr a show ?thesis by (cases "loc = []") (simp_all add: ext_check_eq Let_def EnsureSession_def)
      next
        case True
        obtain r w3 where ens: "EnsureSession (mariadb_service e s lg) (cookie_of req) em w2 = (r, w3)" by fastforce
        from ensure_decision [OF assms(3,4) _ this] True have r: "case fst (select_user e em (tie e (sql_calls w)) (db w)) of
            Inl err \<Rightarrow> \<exists>x. r = Inl x
          | Inr u \<Rightarrow> if ur_status u = ''active''
              then \<exists>row \<in> set (sessions (db w3)). (sr_user_id row = ur_id u \<or> text_eq e (sr_user_id row) (ur_id u))
                \<and> r = Inr (signCookie (sr_session_id row) (dbHash s))
              else \<exists>x. r = Inl x" by (simp add: w2)
        have check: "ext_check (wired e c s lg) req w = (case r of
            Inl err \<Rightarrow> ((okResponse, None), log_at lg LevelWarn ''auth service error, failing open'' [(''error'', AError err)] w3)
          | Inr ck \<Rightarrow> if ck = [] then ((okResponse, None), w3)
              else ((deniedRedirectWithCookie ghostAdminPath (buildSetCookieHeader (wired e c s lg) ck), None),
                log_at lg LevelInfo ''issuing cookie-set redirect''
                  [(''redirect_target'', AString ghostAdminPath), (''email'', AString em)] w3))"
          using chk rt Inr a True ens by (simp add: ext_check_eq Let_def split: sum.split)
        show ?thesis using r rt Inr a True
          by (auto simp: check split: sum.splits if_splits)
      qed
    qed
  qed
qed

text \<open>C8 (functional): the decision of an RPC, while the endpoint is a URL and the database and the random source work.  No answer from
  Authentik, or one it cannot use, lets the request through; its 302 is relayed with all its cookies; a logged-in
  browser passes when it has the Ghost cookie or when the staff row the server returns for its email is missing or
  not active; and every other one, that is an active staff member without the cookie, is given
  the cookie of a session that is in the table and is theirs.\<close>

theorem rpc_decision:
  assumes "endpointURL c \<noteq> []" "url_error e (endpointURL c) = None"
    and "\<forall>k. sql_fault e k = None" "\<forall>k. entropy e k \<noteq> None"
  shows "let (ans, w') = ext_check (wired e c s lg) req w in
    case round_trip e (length (http_sent w)) (login_request c req) of
      Inl msg \<Rightarrow> ans = (okResponse, None)
    | Inr resp \<Rightarrow> (case read_response resp of
        Inl err \<Rightarrow> ans = (okResponse, None)
      | Inr (em, loc, cks) \<Rightarrow>
          if loc \<noteq> [] then ans = (deniedRedirectTo loc cks, None)
          else if hasGhostSessionCookie (cookie_of req) then ans = (okResponse, None)
          else (case fst (select_user e em (tie e (sql_calls w)) (db w)) of
              Inl err \<Rightarrow> ans = (okResponse, None)
            | Inr u \<Rightarrow> if ur_status u = ''active''
                then \<exists>row \<in> set (sessions (db w')). (sr_user_id row = ur_id u \<or> text_eq e (sr_user_id row) (ur_id u))
                  \<and> ans = (deniedRedirectWithCookie ghostAdminPath
                      (buildSetCookieHeader (wired e c s lg) (signCookie (sr_session_id row) (dbHash s))), None)
                else ans = (okResponse, None)))"
  using assms by (rule rpc_answer)

lemma rpc_decision_witness:
  "fst (ext_check (wired sample_env sample_client sample_store LevelInfo) sample_request session_world) \<noteq> (okResponse, None)"
proof -
  have rt: "round_trip sample_env n rq = Inr authentik_ok" for n rq by (simp add: sample_env_def)
  have rd: "read_response authentik_ok = Inr (''alice@example.com'', [], [])"
    by (simp add: read_response_def authentik_ok_def header_get_def)
  have ck: "\<not> hasGhostSessionCookie (cookie_of sample_request)"
    by (simp add: cookie_of_def sample_request_def header_at_def hasGhostSessionCookie_def)
  have us: "fst (select_user sample_env ''alice@example.com'' t (db session_world)) = Inr alice" for t
    by (simp add: select_user_def limit_one_def sample_defs)
  have "endpointURL sample_client \<noteq> []" "url_error sample_env (endpointURL sample_client) = None"
    "\<forall>k. sql_fault sample_env k = None" "\<forall>k. entropy sample_env k \<noteq> None" "ur_status alice = ''active''"
    by (simp_all add: sample_client_def NewClient_def sample_env_def alice_def)
  with rpc_decision [of sample_client sample_env sample_store LevelInfo sample_request session_world] ck rd us
  show ?thesis by (auto simp: Let_def split_def rt responses_differ [symmetric])
qed

text \<open>C5 (liveness): the login ends.  When every session id in the table is 32 URL-safe characters, as Ghost and this
  program make them, the endpoint is a URL, and no statement or read of the random source fails: a browser without
  the Ghost cookie, for which Authentik answers 200 with an email whose staff row, as the server returns it, is
  active, is answered with a redirect to the admin page that carries a cookie; and when
  the browser sends that cookie back with a later request, alone or after others, in a header of fewer than 3000
  semicolons, and Authentik again answers 200 with an email, the request is let through at once, with the tables as
  they are then: the browser is not sent round again.  (An id with other characters, such as a semicolon, need not
  come back as it was sent.)\<close>

theorem login_flow:
  assumes "endpointURL c \<noteq> []" "url_error e (endpointURL c) = None"
    and "\<forall>k. sql_fault e k = None" "\<forall>k. entropy e k \<noteq> None"
    and "round_trip e (length (http_sent w)) (login_request c req) = Inr resp" "rs_status resp = 200"
    and "header_get (rs_header resp) ''X-Authentik-Email'' = em" "em \<noteq> []"
    and "fst (select_user e em (tie e (sql_calls w)) (db w)) = Inr u" "ur_status u = ''active''"
    and "\<not> hasGhostSessionCookie (cookie_of req)" "ids_clean (db w)"
  shows "\<exists>v. fst (ext_check (wired e c s lg) req w) = (deniedRedirectWithCookie ghostAdminPath v, None)
    \<and> (\<forall>req2 w2 resp2 pair others. pair = takeWhile (\<lambda>ch. ch \<noteq> CHR '';'') v
        \<and> (cookie_of req2 = pair \<or> cookie_of req2 = others @ ''; '' @ pair)
        \<and> count_list (cookie_of req2) CHR '';'' < default_cookie_max
        \<and> round_trip e (length (http_sent w2)) (login_request c req2) = Inr resp2 \<and> rs_status resp2 = 200
        \<and> header_get (rs_header resp2) ''X-Authentik-Email'' \<noteq> []
      \<longrightarrow> fst (ext_check (wired e c s lg) req2 w2) = (okResponse, None)
        \<and> db (snd (ext_check (wired e c s lg) req2 w2)) = db w2)"
proof -
  have rd: "read_response resp = Inr (em, [], [])" using assms(6-8) by (simp add: read_response_def)
  from rpc_answer [OF assms(1-4), of s lg req w] assms(5,9,10,11) rd
  obtain row where row: "row \<in> set (sessions (db (snd (ext_check (wired e c s lg) req w))))"
    and ans: "fst (ext_check (wired e c s lg) req w) = (deniedRedirectWithCookie ghostAdminPath
      (buildSetCookieHeader (wired e c s lg) (signCookie (sr_session_id row) (dbHash s))), None)"
    by (auto simp: Let_def split_def)
  from rpc_keeps_ids_clean [OF assms(12), of e c s lg req] row have "list_all url_safe (sr_session_id row)"
    by (auto simp: ids_clean_def list_all_iff)
  note pass = retry_passes [OF ans this refl _ _ assms(1,2)]
  show ?thesis
    by (rule exI, rule conjI, rule ans, intro allI impI, elim conjE, rule pass, simp_all)
qed

lemma login_flow_witness:
  "\<exists>v. fst (ext_check (wired sample_env sample_client sample_store LevelInfo) sample_request sample_world)
      = (deniedRedirectWithCookie ghostAdminPath v, None)
    \<and> fst (ext_check (wired sample_env sample_client sample_store LevelInfo)
          (request_with [''cookie'' \<mapsto> takeWhile (\<lambda>ch. ch \<noteq> CHR '';'') v]) sample_world) = (okResponse, None)"
proof -
  have rt: "round_trip sample_env n rq = Inr authentik_ok" for n rq by (simp add: sample_env_def)
  have em: "header_get (rs_header authentik_ok) ''X-Authentik-Email'' = ''alice@example.com''" "rs_status authentik_ok = 200"
    by (simp_all add: authentik_ok_def header_get_def)
  have ck: "\<not> hasGhostSessionCookie (cookie_of sample_request)" "cookie_of (request_with [''cookie'' \<mapsto> v]) = v" for v
    by (simp_all add: cookie_of_def sample_request_def header_at_def hasGhostSessionCookie_def)
  have us: "fst (select_user sample_env ''alice@example.com'' t (db sample_world)) = Inr alice" for t
    by (simp add: select_user_def limit_one_def sample_defs)
  have ids: "ids_clean (db sample_world)" by (simp add: ids_clean_def sample_world_def world_of_def sample_db_def)
  have "endpointURL sample_client \<noteq> []" "url_error sample_env (endpointURL sample_client) = None"
    "\<forall>k. sql_fault sample_env k = None" "\<forall>k. entropy sample_env k \<noteq> None" "ur_status alice = ''active''"
    by (simp_all add: sample_client_def NewClient_def sample_env_def alice_def)
  from login_flow [OF this(1-4) rt em(2) em(1) _ us this(5) ck(1) ids, of sample_store LevelInfo] obtain v
    where v: "fst (ext_check (wired sample_env sample_client sample_store LevelInfo) sample_request sample_world)
      = (deniedRedirectWithCookie ghostAdminPath v, None)"
    and pass: "count_list (takeWhile (\<lambda>ch. ch \<noteq> CHR '';'') v) CHR '';'' < default_cookie_max \<Longrightarrow>
      fst (ext_check (wired sample_env sample_client sample_store LevelInfo)
        (request_with [''cookie'' \<mapsto> takeWhile (\<lambda>ch. ch \<noteq> CHR '';'') v]) sample_world) = (okResponse, None)"
    by (auto simp: rt em ck)
  have "CHR '';'' \<notin> set (takeWhile (\<lambda>ch. ch \<noteq> CHR '';'') v)" by (auto dest: set_takeWhileD)
  then have "count_list (takeWhile (\<lambda>ch. ch \<noteq> CHR '';'') v) CHR '';'' < default_cookie_max"
    by (simp add: default_cookie_max_def)
  from pass [OF this] v show ?thesis by blast
qed

end
