(* ===== verification/Config.thy ===== *)
theory Config
  imports Domain
begin

text \<open>
  \<open>config/config.go\<close>: the configuration read from environment variables, with
  \<open>strconv.Atoi\<close> as Go's 64-bit library computes it, and the data source name built from it.
  A panic is an outcome of its own beside the returned value and error.
\<close>

record config =
  DBHost :: string
  DBPort :: go_int
  DBName :: string
  DBUser :: string
  DBPassword :: string
  GRPCPort :: go_int
  LogLevel :: string
  SessionMaxAgeDays :: go_int
  AuthentikForwardAuthURL :: string

datatype 'a outcome = Panic string | Return "go_error + 'a"

subsection \<open>The process environment\<close>

type_synonym variables = "string \<Rightarrow> string option"

text \<open>\<open>os.Getenv\<close>: the empty string when the variable is not set.\<close>

definition getenv :: "variables \<Rightarrow> string \<Rightarrow> string" where
  "getenv vs key = (case vs key of Some v \<Rightarrow> v | None \<Rightarrow> [])"

definition env :: "variables \<Rightarrow> string \<Rightarrow> string \<Rightarrow> string" where
  "env vs key default_value = (let v = getenv vs key in if v \<noteq> [] then v else default_value)"

text \<open>\<open>mustEnv\<close>: \<^term>\<open>Inl\<close> is the panic with its message; the key is quoted.\<close>

definition mustEnv :: "variables \<Rightarrow> string \<Rightarrow> string + string" where
  "mustEnv vs key = (let v = getenv vs key in
     if v = [] then Inl (''config: required environment variable '' @ [CHR 0x22] @ key @ [CHR 0x22] @ '' is not set'')
     else Inr v)"

subsection \<open>\<open>strconv.Atoi\<close>\<close>

text \<open>The digit loop of \<open>strconv.ParseUint\<close> in base 10, with its overflow tests in the order of
  the library: a value that no longer fits is out of range whatever follows.\<close>

fun parse_uint :: "nat \<Rightarrow> string \<Rightarrow> num_error + nat" where
  "parse_uint n [] = Inr n"
| "parse_uint n (c # cs) =
     (if \<not> is_digit c then Inl NumSyntax
      else if n \<ge> 1844674407370955162 then Inl NumRange
      else if 10 * n + digit_val c > 18446744073709551615 then Inl NumRange
      else parse_uint (10 * n + digit_val c) cs)"

definition atoi :: "string \<Rightarrow> go_error + go_int" where
  "atoi s =
     (let neg = (s \<noteq> [] \<and> hd s = CHR ''-'');
          digits = (if s \<noteq> [] \<and> (hd s = CHR ''-'' \<or> hd s = CHR ''+'') then tl s else s)
      in if digits = [] then Inl (NumError s NumSyntax)
         else case parse_uint 0 digits of
           Inl k \<Rightarrow> Inl (NumError s k)
         | Inr un \<Rightarrow>
             if \<not> neg \<and> un \<ge> 9223372036854775808 then Inl (NumError s NumRange)
             else if neg \<and> un > 9223372036854775808 then Inl (NumError s NumRange)
             else Inr (word_of_int (if neg then - int un else int un)))"

subsection \<open>\<open>Load\<close> and \<open>DSN\<close>\<close>

definition Load :: "variables \<Rightarrow> config outcome" where
  "Load vs =
     (case mustEnv vs ''DB_USER'' of Inl msg \<Rightarrow> Panic msg | Inr dbUser \<Rightarrow>
      case mustEnv vs ''DB_PASSWORD'' of Inl msg \<Rightarrow> Panic msg | Inr dbPassword \<Rightarrow>
      case mustEnv vs ''AUTHENTIK_FORWARD_AUTH_URL'' of Inl msg \<Rightarrow> Panic msg | Inr url \<Rightarrow>
      case atoi (env vs ''DB_PORT'' ''3306'') of
        Inl err \<Rightarrow> Return (Inl (Wrapped ''config: invalid DB_PORT: '' err [])) | Inr dbPort \<Rightarrow>
      case atoi (env vs ''GRPC_PORT'' ''8080'') of
        Inl err \<Rightarrow> Return (Inl (Wrapped ''config: invalid GRPC_PORT: '' err [])) | Inr grpcPort \<Rightarrow>
      case atoi (env vs ''SESSION_MAX_AGE_DAYS'' ''30'') of
        Inl err \<Rightarrow> Return (Inl (Wrapped ''config: invalid SESSION_MAX_AGE_DAYS: '' err [])) | Inr days \<Rightarrow>
      if sint days \<le> 0
      then Return (Inl (ErrorText (''config: SESSION_MAX_AGE_DAYS must be > 0, got '' @ int_dec (sint days))))
      else Return (Inr \<lparr>DBHost = env vs ''DB_HOST'' ''mariadb.mariadb.svc.cluster.local'', DBPort = dbPort,
        DBName = env vs ''DB_NAME'' ''ghost'', DBUser = dbUser, DBPassword = dbPassword, GRPCPort = grpcPort,
        LogLevel = env vs ''LOG_LEVEL'' ''info'', SessionMaxAgeDays = days, AuthentikForwardAuthURL = url\<rparr>))"

definition DSN :: "config \<Rightarrow> string" where
  "DSN c = DBUser c @ '':'' @ DBPassword c @ ''@tcp('' @ DBHost c @ '':'' @ int_dec (sint (DBPort c)) @ '')/''
     @ DBName c @ ''?parseTime=true&loc=UTC''"

subsection \<open>Numbers\<close>

abbreviation dec_from :: "nat \<Rightarrow> string \<Rightarrow> nat" where
  "dec_from n s \<equiv> foldl (\<lambda>a c. 10 * a + digit_val c) n s"

lemma dec_from_mono: "n \<le> dec_from n s"
proof (induction s arbitrary: n)
  case (Cons c s)
  from Cons [of "10 * n + digit_val c"] show ?case by simp
qed simp

lemma parse_uint_digits:
  "list_all is_digit s \<Longrightarrow> n \<le> 18446744073709551615 \<Longrightarrow>
   parse_uint n s = (if dec_from n s \<le> 18446744073709551615 then Inr (dec_from n s) else Inl NumRange)"
proof (induction s arbitrary: n)
  case (Cons c s)
  have "\<not> 10 * n + digit_val c > 18446744073709551615 \<Longrightarrow> \<not> n \<ge> 1844674407370955162" by simp
  with Cons show ?case
    using dec_from_mono [of "10 * n + digit_val c" s] by auto
qed simp

lemma atoi_digits:
  assumes "s \<noteq> []" "list_all is_digit s"
  shows "atoi s = (if dec_val s < 9223372036854775808 then Inr (word_of_int (int (dec_val s))) else Inl (NumError s NumRange))"
    and "atoi (CHR ''-'' # s) = (if dec_val s \<le> 9223372036854775808 then Inr (word_of_int (- int (dec_val s)))
      else Inl (NumError (CHR ''-'' # s) NumRange))"
proof -
  have "is_digit (hd s)" using assms by (cases s) simp_all
  then have hd: "hd s \<noteq> CHR ''-''" "hd s \<noteq> CHR ''+''" by (auto simp: is_digit_def)
  have p: "parse_uint 0 s = (if dec_val s \<le> 18446744073709551615 then Inr (dec_val s) else Inl NumRange)"
    using parse_uint_digits [OF assms(2), of 0] by (simp add: dec_val_def)
  show "atoi s = (if dec_val s < 9223372036854775808 then Inr (word_of_int (int (dec_val s))) else Inl (NumError s NumRange))"
    using assms(1) hd by (simp add: atoi_def p)
  show "atoi (CHR ''-'' # s) = (if dec_val s \<le> 9223372036854775808 then Inr (word_of_int (- int (dec_val s)))
      else Inl (NumError (CHR ''-'' # s) NumRange))"
    using assms(1) by (simp add: atoi_def p)
qed
lemma atoi_int_dec:
  "atoi (int_dec i) = (if - (2 ^ 63) \<le> i \<and> i < 2 ^ 63 then Inr (word_of_int i) else Inl (NumError (int_dec i) NumRange))"
proof (cases "i < 0")
  case True
  have "atoi (CHR ''-'' # nat_dec (nat (- i))) = (if nat (- i) \<le> 9223372036854775808
      then Inr (word_of_int (- int (nat (- i)))) else Inl (NumError (CHR ''-'' # nat_dec (nat (- i))) NumRange))"
    using atoi_digits(2) [of "nat_dec (nat (- i))"] by (simp add: nat_dec_digits)
  with True show ?thesis by (simp add: int_dec_def nat_le_iff)
next
  case False
  have "atoi (nat_dec (nat i)) = (if nat i < 9223372036854775808
      then Inr (word_of_int (int (nat i))) else Inl (NumError (nat_dec (nat i)) NumRange))"
    using atoi_digits(1) [of "nat_dec (nat i)"] by (simp add: nat_dec_digits)
  with False show ?thesis by (simp add: int_dec_def nat_less_iff)
qed

lemma getenv_env: "env vs k d = (if getenv vs k = [] then d else getenv vs k)"
  by (simp add: env_def Let_def)

lemma mustEnv_cases:
  obtains m where "getenv vs k = []" "mustEnv vs k = Inl m" | "getenv vs k \<noteq> []" "mustEnv vs k = Inr (getenv vs k)"
  by (cases "getenv vs k = []") (simp_all add: mustEnv_def)

subsection \<open>Properties\<close>

text \<open>C34 (error): \<open>Load\<close> panics exactly when one of the three required variables is unset or
  empty; otherwise it returns a configuration exactly when the three numbers are 64-bit
  integers and the lifetime is positive, with each field from its variable or its default, and an
  error in every other case.\<close>

theorem Load_outcome:
  "case Load vs of
     Panic m \<Rightarrow> getenv vs ''DB_USER'' = [] \<or> getenv vs ''DB_PASSWORD'' = [] \<or> getenv vs ''AUTHENTIK_FORWARD_AUTH_URL'' = []
   | Return r \<Rightarrow> getenv vs ''DB_USER'' \<noteq> [] \<and> getenv vs ''DB_PASSWORD'' \<noteq> [] \<and> getenv vs ''AUTHENTIK_FORWARD_AUTH_URL'' \<noteq> []
      \<and> (case r of
           Inr c \<Rightarrow> atoi (env vs ''DB_PORT'' ''3306'') = Inr (DBPort c) \<and> atoi (env vs ''GRPC_PORT'' ''8080'') = Inr (GRPCPort c)
             \<and> atoi (env vs ''SESSION_MAX_AGE_DAYS'' ''30'') = Inr (SessionMaxAgeDays c) \<and> 0 < sint (SessionMaxAgeDays c)
             \<and> DBUser c = getenv vs ''DB_USER'' \<and> DBPassword c = getenv vs ''DB_PASSWORD''
             \<and> AuthentikForwardAuthURL c = getenv vs ''AUTHENTIK_FORWARD_AUTH_URL''
             \<and> DBHost c = env vs ''DB_HOST'' ''mariadb.mariadb.svc.cluster.local''
             \<and> DBName c = env vs ''DB_NAME'' ''ghost'' \<and> LogLevel c = env vs ''LOG_LEVEL'' ''info''
         | Inl err \<Rightarrow> (\<exists>x. atoi (env vs ''DB_PORT'' ''3306'') = Inl x) \<or> (\<exists>x. atoi (env vs ''GRPC_PORT'' ''8080'') = Inl x)
             \<or> (\<exists>x. atoi (env vs ''SESSION_MAX_AGE_DAYS'' ''30'') = Inl x)
             \<or> (\<exists>d. atoi (env vs ''SESSION_MAX_AGE_DAYS'' ''30'') = Inr d \<and> sint d \<le> 0))"
  by (cases rule: mustEnv_cases [of vs "''DB_USER''"]; cases rule: mustEnv_cases [of vs "''DB_PASSWORD''"];
      cases rule: mustEnv_cases [of vs "''AUTHENTIK_FORWARD_AUTH_URL''"])
    (simp_all add: Load_def split: sum.split)

text \<open>The documented shape \<open>user:password@tcp(host:port)/name?parameters\<close> read from the right: the
  name follows the last slash, the address the last at sign before it, and the password the
  first colon.\<close>

definition after_last :: "char \<Rightarrow> string \<Rightarrow> string" where
  "after_last c s = rev (takeWhile (\<lambda>x. x \<noteq> c) (rev s))"

definition before_last :: "char \<Rightarrow> string \<Rightarrow> string" where
  "before_last c s = rev (drop 1 (dropWhile (\<lambda>x. x \<noteq> c) (rev s)))"

definition read_dsn :: "string \<Rightarrow> string \<times> string \<times> string \<times> string" where
  "read_dsn s =
     (let access = before_last CHR ''/'' s; cred = before_last CHR ''@'' access in
      (takeWhile (\<lambda>x. x \<noteq> CHR '':'') cred, drop 1 (dropWhile (\<lambda>x. x \<noteq> CHR '':'') cred),
       after_last CHR ''@'' access, takeWhile (\<lambda>x. x \<noteq> CHR ''?'') (after_last CHR ''/'' s)))"

lemma last_sep: "c \<notin> set b \<Longrightarrow> after_last c (a @ c # b) = b \<and> before_last c (a @ c # b) = a"
proof -
  assume "c \<notin> set b"
  then have "c \<notin> set (rev b)" by simp
  from takeWhile_sep [OF this, of "rev a"] dropWhile_sep [OF this, of "rev a"]
  show ?thesis by (simp add: after_last_def before_last_def)
qed

text \<open>C39 (round trip): the data source name gives back the user, the password, the address and the
  database name whatever the password is, provided the user has no colon, the host no slash
  and no at sign, and the name no slash and no question mark.\<close>

theorem DSN_round_trip:
  assumes "CHR '':'' \<notin> set (DBUser c)" "CHR ''/'' \<notin> set (DBHost c)" "CHR ''@'' \<notin> set (DBHost c)"
    and "CHR ''/'' \<notin> set (DBName c)" "CHR ''?'' \<notin> set (DBName c)"
  shows "read_dsn (DSN c) = (DBUser c, DBPassword c,
    ''tcp('' @ DBHost c @ '':'' @ int_dec (sint (DBPort c)) @ '')'', DBName c)"
proof -
  let ?addr = "''tcp('' @ DBHost c @ '':'' @ int_dec (sint (DBPort c)) @ '')''"
  let ?tail = "DBName c @ ''?parseTime=true&loc=UTC''"
  let ?cred = "DBUser c @ CHR '':'' # DBPassword c"
  have dsn: "DSN c = (?cred @ CHR ''@'' # ?addr) @ CHR ''/'' # ?tail" by (simp add: DSN_def)
  have "CHR ''@'' \<notin> set (int_dec (sint (DBPort c)))"
    using int_dec_set [of "CHR ''@''" "sint (DBPort c)"] by (auto simp: is_digit_def)
  then have "CHR ''/'' \<notin> set ?tail" "CHR ''@'' \<notin> set ?addr" using assms by simp_all
  note last_sep [OF this(1), of "?cred @ CHR ''@'' # ?addr"] last_sep [OF this(2), of ?cred]
  with assms show ?thesis by (simp add: read_dsn_def dsn Let_def)
qed

lemma DSN_round_trip_witness:
  "read_dsn (DSN \<lparr>DBHost = ''db'', DBPort = 3306, DBName = ''ghost'', DBUser = ''ghost'', DBPassword = ''p@ss/w:rd?'',
     GRPCPort = 8080, LogLevel = ''info'', SessionMaxAgeDays = 30, AuthentikForwardAuthURL = ''u''\<rparr>)
   = (''ghost'', ''p@ss/w:rd?'', ''tcp(db:3306)'', ''ghost'')"
  using DSN_round_trip [of "\<lparr>DBHost = ''db'', DBPort = 3306, DBName = ''ghost'', DBUser = ''ghost'', DBPassword = ''p@ss/w:rd?'',
     GRPCPort = 8080, LogLevel = ''info'', SessionMaxAgeDays = 30, AuthentikForwardAuthURL = ''u''\<rparr>"]
  by (simp add: int_dec_def nat_dec.simps digit_char_def char_of_def bit_0)

end
