(* ===== verification/Startup.thy ===== *)
theory Startup
  imports Config ExtAuth
begin

text \<open>
  \<open>cmd/main.go\<close> and \<open>mariadb.Connect\<close>: reading the configuration, choosing the log level,
  opening the pool, wiring the adapters, and the shutdown protocol between the signal, the
  goroutine that runs the gRPC server and the channel between them.
\<close>

subsection \<open>The platform\<close>

text \<open>What start-up learns from outside: the driver's verdict on a data source name, the result of
  the first ping, and whether a port can be listened on.\<close>

record platform =
  open_error :: "string \<Rightarrow> string option"
  ping_error :: "string \<Rightarrow> string option"
  listen_error :: "string \<Rightarrow> string option"
  dotenv_error :: "string option"

record db_pool =
  pool_dsn :: string
  MaxOpenConns :: go_int
  MaxIdleConns :: go_int
  ConnMaxLifetime :: go_int

definition Connect :: "platform \<Rightarrow> string \<Rightarrow> go_error + db_pool" where
  "Connect pf dsn =
     (case open_error pf dsn of
        Some msg \<Rightarrow> Inl (Wrapped ''mariadb: opening connection: '' (ErrorText msg) [])
      | None \<Rightarrow>
          (case ping_error pf dsn of
             Some msg \<Rightarrow> Inl (Wrapped ''mariadb: ping failed: '' (ErrorText msg) [])
           | None \<Rightarrow> Inr \<lparr>pool_dsn = dsn, MaxOpenConns = 5, MaxIdleConns = 2, ConnMaxLifetime = 5 * 60000000000\<rparr>))"

subsection \<open>\<open>run\<close> up to the listener\<close>

definition log_level_of :: "string \<Rightarrow> log_level" where
  "log_level_of s = (if s = ''debug'' then LevelDebug else if s = ''warn'' then LevelWarn
     else if s = ''error'' then LevelError else LevelInfo)"

text \<open>What is registered with the gRPC server: the authorization service, reflection, and the health
  service with the status of each service name.\<close>

datatype serving_status = SERVING | NOT_SERVING

datatype grpc_service =
    Authorization server
  | Reflection
  | Health "string \<Rightarrow> serving_status option"

text \<open>The running program: the configuration, the pool, the session store, the registered services and the address it
  listens on.\<close>

record running =
  rn_config :: config
  rn_pool :: db_pool
  rn_store :: mariadb_store
  rn_services :: "grpc_service list"
  rn_listen :: string

definition run :: "platform \<Rightarrow> environment \<Rightarrow> variables \<Rightarrow> world \<Rightarrow> running outcome \<times> world" where
  "run pf e vs w =
     (case Load vs of
        Panic msg \<Rightarrow> (Panic msg, w)
      | Return (Inl err) \<Rightarrow> (Return (Inl (Wrapped ''loading config: '' err [])), w)
      | Return (Inr cfg) \<Rightarrow>
          (let lg = log_level_of (LogLevel cfg);
               w1 = log_at lg LevelInfo ''ghost-sso-proxy starting'' [(''db_host'', AString (DBHost cfg)),
                 (''db_name'', AString (DBName cfg)), (''grpc_port'', AInt (sint (GRPCPort cfg)))] w
           in case Connect pf (DSN cfg) of
                Inl err \<Rightarrow> (Return (Inl (Wrapped ''connecting to MariaDB: '' err [])), w1)
              | Inr pool \<Rightarrow>
                  (let w2 = log_at lg LevelInfo ''connected to MariaDB'' [] w1;
                       userRepo = NewUserRepository e;
                       (r, w3) = NewSessionStore e lg (SessionMaxAgeDays cfg) w2
                   in case r of
                        Inl err \<Rightarrow> (Return (Inl (Wrapped ''initialising session store: '' err [])), w3)
                      | Inr store \<Rightarrow>
                          (let w4 = log_at lg LevelInfo ''admin_session_secret loaded for session signing''
                                 [(''session_max_age_days'', AInt (sint (SessionMaxAgeDays cfg)))] w3;
                               authentikClient = NewClient (AuthentikForwardAuthURL cfg);
                               w5 = log_at lg LevelInfo ''authentik forward auth configured''
                                 [(''forward_auth_url'', AString (AuthentikForwardAuthURL cfg))] w4;
                               authService = New userRepo (mariadb_session_store e store) lg;
                               extauthServer = NewServer (auth_service_of authService)
                                 (authentik_client e authentikClient) lg (SessionMaxAgeDays cfg);
                               healthSrv = [[] \<mapsto> SERVING];
                               grpcServer = [Authorization extauthServer, Reflection, Health healthSrv];
                               addr = '':'' @ int_dec (sint (GRPCPort cfg))
                           in case listen_error pf addr of
                                Some msg \<Rightarrow> (Return (Inl (Wrapped (''listening on port '' @ int_dec (sint (GRPCPort cfg)) @ '': '')
                                   (ErrorText msg) [])), w5)
                              | None \<Rightarrow> (Return (Inr \<lparr>rn_config = cfg, rn_pool = pool, rn_store = store,
                                   rn_services = grpcServer, rn_listen = addr\<rparr>), w5)))))"

lemma run_ready:
  assumes "fst (run pf e vs w) = Return (Inr rn)"
  obtains s where "Load vs = Return (Inr (rn_config rn))" "rn_store rn = s" "dbHash s \<noteq> []" "sessionMaxAge s = SessionMaxAgeDays (rn_config rn)"
    "rn_services rn = [Authorization (wired e (NewClient (AuthentikForwardAuthURL (rn_config rn))) s
       (log_level_of (LogLevel (rn_config rn)))), Reflection, Health [[] \<mapsto> SERVING]]"
    "open_error pf (DSN (rn_config rn)) = None" "ping_error pf (DSN (rn_config rn)) = None"
    "\<exists>row raw. row \<in> set (settings (db w)) \<and> text_eq e (st_key row) ''admin_session_secret''
       \<and> st_value row = Some raw \<and> dbHash s = fst (unwrap_secret raw)"
proof -
  obtain cfg where cfg: "Load vs = Return (Inr cfg)"
    using assms by (auto simp: run_def split: outcome.splits sum.splits)
  let ?lg = "log_level_of (LogLevel cfg)"
  let ?w2 = "log_at ?lg LevelInfo ''connected to MariaDB'' [] (log_at ?lg LevelInfo ''ghost-sso-proxy starting''
    [(''db_host'', AString (DBHost cfg)), (''db_name'', AString (DBName cfg)), (''grpc_port'', AInt (sint (GRPCPort cfg)))] w)"
  obtain pool where pool: "Connect pf (DSN cfg) = Inr pool"
    using assms by (auto simp: run_def cfg Let_def split: sum.splits)
  obtain s where s: "fst (NewSessionStore e ?lg (SessionMaxAgeDays cfg) ?w2) = Inr s"
    using assms by (auto simp: run_def cfg pool Let_def split_def split: sum.splits)
  have rn: "rn_config rn = cfg" "rn_store rn = s" "rn_services rn = [Authorization (NewServer (auth_service_of (New (NewUserRepository e)
      (mariadb_session_store e s) ?lg)) (authentik_client e (NewClient (AuthentikForwardAuthURL cfg))) ?lg (SessionMaxAgeDays cfg)),
      Reflection, Health [[] \<mapsto> SERVING]]"
    using assms by (auto simp: run_def cfg pool s Let_def split_def split: option.splits)
  from s obtain row raw where row: "row \<in> set (settings (db ?w2))" "text_eq e (st_key row) ''admin_session_secret''"
    "st_value row = Some raw" "raw \<noteq> []" "s = \<lparr>dbHash = fst (unwrap_secret raw), sessionMaxAge = SessionMaxAgeDays cfg\<rparr>"
    by (rule NewSessionStore_ok)
  have "open_error pf (DSN cfg) = None" "ping_error pf (DSN cfg) = None"
    using pool by (auto simp: Connect_def split: option.splits)
  with row rn cfg show thesis
    by (intro that [of s]) (auto simp: unwrap_secret_nonempty wired_def mariadb_service_def)
qed

subsection \<open>\<open>main\<close>\<close>

text \<open>\<open>main\<close> up to the point where the server runs: a missing \<open>.env\<close> file is a warning on the
  default logger, an error of \<open>run\<close> is printed and ends the process with status 1, a panic
  ends it with status 2.  \<open>vs\<close> are the variables after \<open>godotenv.Load\<close>.\<close>

datatype exit = Fatal go_error | Panicked string

fun exit_status :: "exit \<Rightarrow> nat" where
  "exit_status (Fatal err) = 1"
| "exit_status (Panicked msg) = 2"

definition main_start :: "platform \<Rightarrow> environment \<Rightarrow> variables \<Rightarrow> world \<Rightarrow> (exit + running) \<times> world" where
  "main_start pf e vs w =
     (let w1 = (case dotenv_error pf of None \<Rightarrow> w
          | Some m \<Rightarrow> log_at LevelInfo LevelWarn ''error loading .env file'' [(''err'', AError (ErrorText m))] w);
          (r, w2) = run pf e vs w1
      in (case r of
            Panic msg \<Rightarrow> Inl (Panicked msg)
          | Return (Inl err) \<Rightarrow> Inl (Fatal err)
          | Return (Inr rn) \<Rightarrow> Inr rn, w2))"

lemma run_db: "db (snd (run pf e vs w)) = db w" "http_sent (snd (run pf e vs w)) = http_sent w"
  by (simp_all add: run_def Let_def split_def split: outcome.split sum.split option.split)

lemma Load_panic: "Load vs = Panic m \<longleftrightarrow> (mustEnv vs ''DB_USER'' = Inl m
    \<or> (\<exists>u. mustEnv vs ''DB_USER'' = Inr u) \<and> mustEnv vs ''DB_PASSWORD'' = Inl m
    \<or> (\<exists>u p. mustEnv vs ''DB_USER'' = Inr u \<and> mustEnv vs ''DB_PASSWORD'' = Inr p)
        \<and> mustEnv vs ''AUTHENTIK_FORWARD_AUTH_URL'' = Inl m)"
  by (auto simp: Load_def split: sum.splits)

lemma Load_ok:
  assumes "Load vs = Return (Inr c)"
  shows "0 < sint (SessionMaxAgeDays c)" "AuthentikForwardAuthURL c \<noteq> []"
  using assms by (auto simp: Load_def mustEnv_def Let_def split: sum.splits if_splits)

lemma run_panic: "(\<exists>m. fst (run pf e vs w) = Panic m) \<longleftrightarrow> (\<exists>m. Load vs = Panic m)"
  by (auto simp: run_def Let_def split_def split: outcome.splits sum.splits option.splits)

lemma mustEnv_missing: "(\<exists>m. mustEnv vs k = Inl m) \<longleftrightarrow> getenv vs k = []" "(\<exists>v. mustEnv vs k = Inr v) \<longleftrightarrow> getenv vs k \<noteq> []"
  by (simp_all add: mustEnv_def Let_def)

lemma ready_wired:
  assumes "fst (main_start pf e vs w) = Inr rn"
  shows "\<exists>s row raw. s = rn_store rn \<and> Load vs = Return (Inr (rn_config rn))
    \<and> rn_services rn = [Authorization (wired e (NewClient (AuthentikForwardAuthURL (rn_config rn))) s
         (log_level_of (LogLevel (rn_config rn)))), Reflection, Health [[] \<mapsto> SERVING]]
    \<and> row \<in> set (settings (db w)) \<and> text_eq e (st_key row) ''admin_session_secret'' \<and> st_value row = Some raw
    \<and> dbHash s = fst (unwrap_secret raw) \<and> dbHash s \<noteq> [] \<and> sessionMaxAge s = SessionMaxAgeDays (rn_config rn)
    \<and> 0 < sint (sessionMaxAge s) \<and> AuthentikForwardAuthURL (rn_config rn) \<noteq> []"
proof -
  obtain v where r: "fst (run pf e vs v) = Return (Inr rn)" and v: "db v = db w"
    using assms by (auto simp: main_start_def Let_def split_def split: outcome.splits sum.splits option.splits)
  from r obtain s where s: "Load vs = Return (Inr (rn_config rn))" "rn_store rn = s" "dbHash s \<noteq> []"
    "sessionMaxAge s = SessionMaxAgeDays (rn_config rn)"
    "rn_services rn = [Authorization (wired e (NewClient (AuthentikForwardAuthURL (rn_config rn))) s
       (log_level_of (LogLevel (rn_config rn)))), Reflection, Health [[] \<mapsto> SERVING]]"
    "\<exists>row raw. row \<in> set (settings (db v)) \<and> text_eq e (st_key row) ''admin_session_secret''
       \<and> st_value row = Some raw \<and> dbHash s = fst (unwrap_secret raw)" by (rule run_ready)
  from s(1) have "0 < sint (SessionMaxAgeDays (rn_config rn))" "AuthentikForwardAuthURL (rn_config rn) \<noteq> []"
    using Load_ok by blast+
  with s v show ?thesis by (intro exI [of _ s]) auto
qed

subsection \<open>Properties of start-up\<close>

lemma start_outcome:
  "db (snd (main_start pf e vs w)) = db w \<and> http_sent (snd (main_start pf e vs w)) = http_sent w
   \<and> (case fst (main_start pf e vs w) of
        Inl x \<Rightarrow> exit_status x = (if getenv vs ''DB_USER'' = [] \<or> getenv vs ''DB_PASSWORD'' = []
            \<or> getenv vs ''AUTHENTIK_FORWARD_AUTH_URL'' = [] then 2 else 1)
      | Inr rn \<Rightarrow> getenv vs ''DB_USER'' \<noteq> [] \<and> getenv vs ''DB_PASSWORD'' \<noteq> []
          \<and> getenv vs ''AUTHENTIK_FORWARD_AUTH_URL'' \<noteq> [])"
proof -
  let ?missing = "getenv vs ''DB_USER'' = [] \<or> getenv vs ''DB_PASSWORD'' = [] \<or> getenv vs ''AUTHENTIK_FORWARD_AUTH_URL'' = []"
  have load: "(\<exists>m. Load vs = Panic m) \<longleftrightarrow> ?missing"
    by (cases rule: mustEnv_cases [of vs "''DB_USER''"]; cases rule: mustEnv_cases [of vs "''DB_PASSWORD''"];
        cases rule: mustEnv_cases [of vs "''AUTHENTIK_FORWARD_AUTH_URL''"])
      (simp_all add: Load_panic)
  have panic: "(\<exists>m. fst (run pf e vs v) = Panic m) \<longleftrightarrow> ?missing" for v
    unfolding run_panic by (rule load)
  define v where "v = (case dotenv_error pf of None \<Rightarrow> w
    | Some m \<Rightarrow> log_at LevelInfo LevelWarn ''error loading .env file'' [(''err'', AError (ErrorText m))] w)"
  have v: "db v = db w" "http_sent v = http_sent w" by (simp_all add: v_def split: option.split)
  have ms: "main_start pf e vs w = (case fst (run pf e vs v) of Panic msg \<Rightarrow> Inl (Panicked msg)
      | Return (Inl err) \<Rightarrow> Inl (Fatal err) | Return (Inr rn) \<Rightarrow> Inr rn, snd (run pf e vs v))"
    by (simp add: main_start_def v_def [symmetric] Let_def split_def)
  show ?thesis
  proof (cases "fst (run pf e vs v)")
    case (Panic m)
    with panic [of v] have "?missing" by blast
    with Panic show ?thesis by (auto simp: ms run_db v)
  next
    case (Return r)
    with panic [of v] have "\<not> ?missing" by auto
    with Return show ?thesis by (cases r) (simp_all add: ms run_db v)
  qed
qed

text \<open>C35 (error): start-up reads the tables and writes nothing, and asks Authentik nothing.  It ends the
  process with status 2 exactly when a required variable is missing, and with status 1 on any
  other failure.\<close>

theorem startup_outcome:
  "db (snd (main_start pf e vs w)) = db w \<and> http_sent (snd (main_start pf e vs w)) = http_sent w
   \<and> (case fst (main_start pf e vs w) of
        Inl x \<Rightarrow> exit_status x = (if getenv vs ''DB_USER'' = [] \<or> getenv vs ''DB_PASSWORD'' = []
            \<or> getenv vs ''AUTHENTIK_FORWARD_AUTH_URL'' = [] then 2 else 1)
      | Inr rn \<Rightarrow> getenv vs ''DB_USER'' \<noteq> [] \<and> getenv vs ''DB_PASSWORD'' \<noteq> []
          \<and> getenv vs ''AUTHENTIK_FORWARD_AUTH_URL'' \<noteq> [])"
  by (rule start_outcome)

text \<open>A server that gets to serve is wired from the loaded configuration: the signing
  secret is the one of the settings table, and the service, the session rows and the
  cookie all use the configured lifetime, which is positive; and the health service answers
  \<open>SERVING\<close> for the empty service name and knows no other.\<close>

lemma ready_is_wired:
  assumes "fst (main_start pf e vs w) = Inr rn"
  shows "\<exists>s row raw. Load vs = Return (Inr (rn_config rn))
    \<and> rn_services rn = [Authorization (wired e (NewClient (AuthentikForwardAuthURL (rn_config rn))) s
         (log_level_of (LogLevel (rn_config rn)))), Reflection, Health [[] \<mapsto> SERVING]]
    \<and> row \<in> set (settings (db w)) \<and> text_eq e (st_key row) ''admin_session_secret'' \<and> st_value row = Some raw
    \<and> dbHash s = fst (unwrap_secret raw) \<and> dbHash s \<noteq> [] \<and> sessionMaxAge s = SessionMaxAgeDays (rn_config rn)
    \<and> 0 < sint (sessionMaxAge s) \<and> AuthentikForwardAuthURL (rn_config rn) \<noteq> []"
  using ready_wired [OF assms] by blast

definition sample_platform :: platform where
  "sample_platform = \<lparr>open_error = (\<lambda>d. None), ping_error = (\<lambda>d. None), listen_error = (\<lambda>a. None),
     dotenv_error = Some ''open .env: no such file or directory''\<rparr>"

definition sample_vars :: variables where
  "sample_vars = [''DB_USER'' \<mapsto> ''ghost'', ''DB_PASSWORD'' \<mapsto> ''pw'', ''AUTHENTIK_FORWARD_AUTH_URL'' \<mapsto> ''https://auth.example.com/auth'',
     ''LOG_LEVEL'' \<mapsto> ''error'', ''SESSION_MAX_AGE_DAYS'' \<mapsto> ''180'']"

lemma sample_load: "\<exists>c. Load sample_vars = Return (Inr c) \<and> SessionMaxAgeDays c = 180
    \<and> AuthentikForwardAuthURL c = ''https://auth.example.com/auth''"
proof -
  have "atoi ''3306'' = Inr 3306" "atoi ''8080'' = Inr 8080" "atoi ''180'' = Inr 180"
    by (simp_all add: atoi_def is_digit_def digit_val_def)
  then show ?thesis by (simp add: Load_def mustEnv_def env_def getenv_def Let_def sample_vars_def)
qed

lemma sample_secret: "unwrap_secret ''k3y'' = (''k3y'', False)"
  by (simp add: unwrap_secret_def unmarshal_string_def json_space_def)

lemma sample_start: "\<exists>rn. fst (main_start sample_platform sample_env sample_vars sample_world) = Inr rn"
proof -
  obtain c where c: "Load sample_vars = Return (Inr c)" using sample_load by blast
  have store: "fst (NewSessionStore sample_env lg days v) = Inr \<lparr>dbHash = ''k3y'', sessionMaxAge = days\<rparr>"
    if "db v = sample_db" for lg days v
    using that by (simp add: NewSessionStore_def run_sql_def select_secret_def limit_one_def Let_def sample_secret
        sample_env_def) (simp add: sample_db_def sample_secret)
  have "\<exists>rn. fst (run sample_platform sample_env sample_vars v) = Return (Inr rn)" if v: "db v = sample_db" for v
  proof -
    let ?lg = "log_level_of (LogLevel c)"
    define v2 where "v2 = log_at ?lg LevelInfo ''connected to MariaDB'' [] (log_at ?lg LevelInfo ''ghost-sso-proxy starting''
      [(''db_host'', AString (DBHost c)), (''db_name'', AString (DBName c)), (''grpc_port'', AInt (sint (GRPCPort c)))] v)"
    have "db v2 = sample_db" by (simp add: v2_def v)
    then obtain v3 where "NewSessionStore sample_env ?lg (SessionMaxAgeDays c) v2
        = (Inr \<lparr>dbHash = ''k3y'', sessionMaxAge = SessionMaxAgeDays c\<rparr>, v3)"
      using store by (metis prod.collapse)
    then show ?thesis by (simp add: run_def c Connect_def sample_platform_def Let_def v2_def)
  qed
  note up = this
  let ?m = "''open .env: no such file or directory''"
  define v1 where "v1 = log_at LevelInfo LevelWarn ''error loading .env file'' [(''err'', AError (ErrorText ?m))] sample_world"
  have "db v1 = sample_db" by (simp add: v1_def sample_world_def world_of_def)
  from up [OF this] obtain rn where "fst (run sample_platform sample_env sample_vars v1) = Return (Inr rn)" by blast
  moreover have "dotenv_error sample_platform = Some ?m" by (simp add: sample_platform_def)
  ultimately show ?thesis by (simp add: main_start_def Let_def split_def v1_def)
qed

lemma ready_is_wired_witness:
  "\<exists>rn s. fst (main_start sample_platform sample_env sample_vars sample_world) = Inr rn
    \<and> rn_services rn = [Authorization (wired sample_env (NewClient (AuthentikForwardAuthURL (rn_config rn))) s
         (log_level_of (LogLevel (rn_config rn)))), Reflection, Health [[] \<mapsto> SERVING]]
    \<and> dbHash s = ''k3y''"
proof -
  obtain rn where rn: "fst (main_start sample_platform sample_env sample_vars sample_world) = Inr rn"
    using sample_start by blast
  from ready_is_wired [OF rn] rn show ?thesis
    by (auto simp: sample_world_def world_of_def sample_db_def sample_secret)
qed


text \<open>Another password changes nothing of the configuration but the password.\<close>

lemma getenv_other: "k \<noteq> k' \<Longrightarrow> getenv (vs(k' \<mapsto> v)) k = getenv vs k"
  by (simp add: getenv_def)

lemma Load_password:
  assumes "getenv vs ''DB_PASSWORD'' \<noteq> []" "q \<noteq> []"
  shows "Load (vs(''DB_PASSWORD'' \<mapsto> q)) = (case Load vs of Return (Inr c) \<Rightarrow> Return (Inr (c\<lparr>DBPassword := q\<rparr>)) | x \<Rightarrow> x)"
proof -
  have other: "mustEnv (vs(''DB_PASSWORD'' \<mapsto> q)) k = mustEnv vs k" "env (vs(''DB_PASSWORD'' \<mapsto> q)) k d = env vs k d"
    if "k \<noteq> ''DB_PASSWORD''" for k d using that by (simp_all add: mustEnv_def env_def getenv_other)
  have pw: "mustEnv (vs(''DB_PASSWORD'' \<mapsto> q)) ''DB_PASSWORD'' = Inr q" "mustEnv vs ''DB_PASSWORD'' = Inr (getenv vs ''DB_PASSWORD'')"
    using assms by (simp_all add: mustEnv_def getenv_def)
  show ?thesis by (simp add: Load_def other pw Let_def split: sum.split)
qed

lemma run_password:
  assumes "getenv vs ''DB_PASSWORD'' \<noteq> []" "q \<noteq> []"
    and "\<forall>c. Load vs = Return (Inr c) \<longrightarrow> open_error pf (DSN (c\<lparr>DBPassword := q\<rparr>)) = open_error pf (DSN c)
      \<and> ping_error pf (DSN (c\<lparr>DBPassword := q\<rparr>)) = ping_error pf (DSN c)"
  shows "snd (run pf e (vs(''DB_PASSWORD'' \<mapsto> q)) w) = snd (run pf e vs w)
    \<and> map_outcome rn_services (fst (run pf e (vs(''DB_PASSWORD'' \<mapsto> q)) w)) = map_outcome rn_services (fst (run pf e vs w))"
proof (cases "\<exists>c. Load vs = Return (Inr c)")
  case True
  then obtain c where c: "Load vs = Return (Inr c)" by blast
  have conn: "Connect pf (DSN (c\<lparr>DBPassword := q\<rparr>)) = map_sum id (\<lambda>p. p\<lparr>pool_dsn := DSN (c\<lparr>DBPassword := q\<rparr>)\<rparr>) (Connect pf (DSN c))"
    using assms(3) c by (simp add: Connect_def split: option.split)
  show ?thesis
    by (cases "Connect pf (DSN c)")
      (simp_all add: run_def Load_password [OF assms(1,2)] c conn Let_def split_def split: sum.split option.split)
next
  case False
  then have "Load (vs(''DB_PASSWORD'' \<mapsto> q)) = Load vs"
    unfolding Load_password [OF assms(1,2)] by (auto split: outcome.split sum.split)
  then have "run pf e (vs(''DB_PASSWORD'' \<mapsto> q)) w = run pf e vs w" by (simp add: run_def)
  then show ?thesis by simp
qed

text \<open>C31 (safety): the database password stays in the data source name.  With any other password that the
  driver and the server judge alike, start-up leaves the same log, tables and requests, fails with the same
  error, or registers the same services.\<close>

theorem password_not_logged:
  assumes "getenv vs ''DB_PASSWORD'' \<noteq> []" "q \<noteq> []"
    and "\<forall>c. Load vs = Return (Inr c) \<longrightarrow> open_error pf (DSN (c\<lparr>DBPassword := q\<rparr>)) = open_error pf (DSN c)
      \<and> ping_error pf (DSN (c\<lparr>DBPassword := q\<rparr>)) = ping_error pf (DSN c)"
  shows "snd (main_start pf e (vs(''DB_PASSWORD'' \<mapsto> q)) w) = snd (main_start pf e vs w)
    \<and> map_sum id rn_services (fst (main_start pf e (vs(''DB_PASSWORD'' \<mapsto> q)) w))
        = map_sum id rn_services (fst (main_start pf e vs w))"
proof -
  define v where "v = (case dotenv_error pf of None \<Rightarrow> w
    | Some m \<Rightarrow> log_at LevelInfo LevelWarn ''error loading .env file'' [(''err'', AError (ErrorText m))] w)"
  have ms: "main_start pf e vs' w = (case fst (run pf e vs' v) of Panic msg \<Rightarrow> Inl (Panicked msg)
      | Return (Inl err) \<Rightarrow> Inl (Fatal err) | Return (Inr rn) \<Rightarrow> Inr rn, snd (run pf e vs' v))" for vs'
    by (simp add: main_start_def v_def [symmetric] Let_def split_def)
  have services: "map_sum id rn_services (case r of Panic msg \<Rightarrow> Inl (Panicked msg)
      | Return (Inl err) \<Rightarrow> Inl (Fatal err) | Return (Inr rn) \<Rightarrow> Inr rn)
    = (case map_outcome rn_services r of Panic msg \<Rightarrow> Inl (Panicked msg)
      | Return (Inl err) \<Rightarrow> Inl (Fatal err) | Return (Inr ss) \<Rightarrow> Inr ss)" for r
    by (simp split: outcome.split sum.split)
  show ?thesis using run_password [OF assms, of e v] by (simp add: ms services)
qed

lemma password_not_logged_witness:
  "logs (snd (main_start sample_platform sample_env (sample_vars(''LOG_LEVEL'' \<mapsto> ''info'', ''DB_PASSWORD'' \<mapsto> ''hunter2'')) sample_world))
    = logs (snd (main_start sample_platform sample_env (sample_vars(''LOG_LEVEL'' \<mapsto> ''info'')) sample_world))"
proof -
  have "getenv (sample_vars(''LOG_LEVEL'' \<mapsto> ''info'')) ''DB_PASSWORD'' \<noteq> []" by (simp add: getenv_def sample_vars_def)
  then show ?thesis
    using password_not_logged [of "sample_vars(''LOG_LEVEL'' \<mapsto> ''info'')" "''hunter2''" sample_platform sample_env sample_world]
    by (simp add: sample_platform_def)
qed

end
