(* ===== verification/Shutdown.thy ===== *)
theory Shutdown
  imports Startup
begin

text \<open>
  The end of \<open>run\<close> in \<open>cmd/main.go\<close> as a state machine: the goroutine that announces the server,
  runs \<open>grpcServer.Serve\<close> and reports on \<open>errCh\<close>, a channel of capacity one, the signal, the RPCs in
  flight and the \<open>select\<close> of the main goroutine.  One rule is one step of one of them, so a run of
  the relation is an interleaving.  As grpc-go documents, \<open>Serve\<close> may fail while the server
  accepts, returns nil only once \<open>GracefulStop\<close> has stopped it, and returns
  \<open>ErrServerStopped\<close> when it is called after that; \<open>GracefulStop\<close> stops accepting at once and
  returns when no RPC is left.
\<close>

datatype goroutine = Starting | Ready | Serving | ServeFailed go_error | ServeEnded | GoDone

datatype main_pc = Select | Stopping | Draining | Receiving | Returned "go_error option"

record process =
  pc :: main_pc
  go :: goroutine
  errCh :: "go_error option"
  closed :: bool
  signalled :: bool
  accepting :: bool
  inflight :: nat
  messages :: "string list"

definition listening :: process where
  "listening = \<lparr>pc = Select, go = Starting, errCh = None, closed = False, signalled = False,
     accepting = True, inflight = 0, messages = []\<rparr>"

definition ErrServerStopped :: go_error where
  "ErrServerStopped = ErrorText ''grpc: the server has been stopped''"

inductive step :: "process \<Rightarrow> process \<Rightarrow> bool" where
  announce: "go p = Starting \<Longrightarrow> step p (p\<lparr>go := Ready, messages := messages p @ [''gRPC server ready'']\<rparr>)"
| serve: "go p = Ready \<Longrightarrow> accepting p \<Longrightarrow> step p (p\<lparr>go := Serving\<rparr>)"
| serve_late: "go p = Ready \<Longrightarrow> \<not> accepting p \<Longrightarrow> step p (p\<lparr>go := ServeFailed ErrServerStopped\<rparr>)"
| rpc_start: "go p = Serving \<Longrightarrow> accepting p \<Longrightarrow> step p (p\<lparr>inflight := Suc (inflight p)\<rparr>)"
| rpc_end: "inflight p = Suc n \<Longrightarrow> step p (p\<lparr>inflight := n\<rparr>)"
| serve_error: "go p = Serving \<Longrightarrow> accepting p \<Longrightarrow> step p (p\<lparr>go := ServeFailed err\<rparr>)"
| serve_nil: "go p = Serving \<Longrightarrow> \<not> accepting p \<Longrightarrow> step p (p\<lparr>go := ServeEnded\<rparr>)"
| send: "go p = ServeFailed err \<Longrightarrow> errCh p = None \<Longrightarrow>
    step p (p\<lparr>go := ServeEnded, errCh := Some (Wrapped ''gRPC server: '' err [])\<rparr>)"
| close_channel: "go p = ServeEnded \<Longrightarrow> step p (p\<lparr>go := GoDone, closed := True\<rparr>)"
| signal: "step p (p\<lparr>signalled := True\<rparr>)"
| select_signal: "pc p = Select \<Longrightarrow> signalled p \<Longrightarrow>
    step p (p\<lparr>pc := Stopping, messages := messages p @ [''shutdown signal received'']\<rparr>)"
| stop_accepting: "pc p = Stopping \<Longrightarrow> step p (p\<lparr>pc := Draining, accepting := False\<rparr>)"
| graceful_stop: "pc p = Draining \<Longrightarrow> inflight p = 0 \<Longrightarrow> step p (p\<lparr>pc := Receiving\<rparr>)"
| receive: "pc p \<in> {Select, Receiving} \<Longrightarrow> errCh p = Some err \<Longrightarrow>
    step p (p\<lparr>pc := Returned (Some err), errCh := None\<rparr>)"
| receive_closed: "pc p \<in> {Select, Receiving} \<Longrightarrow> errCh p = None \<Longrightarrow> closed p \<Longrightarrow>
    step p (p\<lparr>pc := Returned None\<rparr>)"

inductive reachable :: "process \<Rightarrow> bool" where
  reachable_start: "reachable listening"
| reachable_step: "reachable p \<Longrightarrow> step p q \<Longrightarrow> reachable q"

inductive_cases step_elim: "step p q"

text \<open>The invariant: what each control point knows of the channel, the server and the signal.\<close>

definition channel_ok :: "process \<Rightarrow> bool" where
  "channel_ok p \<longleftrightarrow>
     (closed p \<longleftrightarrow> go p = GoDone)
     \<and> (case go p of ServeEnded \<Rightarrow> True | GoDone \<Rightarrow> True | _ \<Rightarrow> errCh p = None)
     \<and> (case errCh p of None \<Rightarrow> True | Some e \<Rightarrow> \<exists>err. e = Wrapped ''gRPC server: '' err [])"

definition main_ok :: "process \<Rightarrow> bool" where
  "main_ok p \<longleftrightarrow> (case pc p of
      Select \<Rightarrow> accepting p \<and> (go p \<in> {ServeEnded, GoDone} \<longrightarrow> errCh p \<noteq> None)
    | Stopping \<Rightarrow> signalled p \<and> accepting p
    | Draining \<Rightarrow> signalled p \<and> \<not> accepting p
    | Receiving \<Rightarrow> signalled p \<and> \<not> accepting p \<and> inflight p = 0
    | Returned None \<Rightarrow> signalled p \<and> \<not> accepting p \<and> inflight p = 0 \<and> go p = GoDone
    | Returned (Some e) \<Rightarrow> (\<exists>err. e = Wrapped ''gRPC server: '' err []) \<and> go p \<in> {ServeEnded, GoDone})"

lemma invariant_step:
  assumes "step p q" "channel_ok p" "main_ok p"
  shows "channel_ok q \<and> main_ok q"
  using assms
  by (cases rule: step.cases)
    (auto simp: channel_ok_def main_ok_def split: main_pc.splits goroutine.splits option.splits)

lemma reachable_ok: "reachable p \<Longrightarrow> channel_ok p \<and> main_ok p"
proof (induction rule: reachable.induct)
  case reachable_start
  show ?case by (simp add: channel_ok_def main_ok_def listening_def)
next
  case (reachable_step p q)
  then show ?case using invariant_step by blast
qed
text \<open>Work left, apart from what new requests and the signal add.\<close>

definition work :: "process \<Rightarrow> nat" where
  "work p = (case pc p of Select \<Rightarrow> 4 | Stopping \<Rightarrow> 3 | Draining \<Rightarrow> 2 | Receiving \<Rightarrow> 1 | Returned _ \<Rightarrow> 0)
     + (case go p of Starting \<Rightarrow> 5 | Ready \<Rightarrow> 4 | Serving \<Rightarrow> 3 | ServeFailed _ \<Rightarrow> 2 | ServeEnded \<Rightarrow> 1 | GoDone \<Rightarrow> 0) + inflight p"

text \<open>A main goroutine that waits on the channel, while the server is stopped: the other goroutine gets to
  closing it.\<close>

lemma less_work:
  "step p q \<Longrightarrow> work q < work p \<Longrightarrow> signalled q = signalled p \<Longrightarrow>
   \<exists>q. step p q \<and> work q < work p \<and> signalled q = signalled p"
  by blast

lemma receiving_progress:
  assumes "channel_ok p" "pc p = Receiving" "\<not> accepting p"
  shows "\<exists>q. step p q \<and> work q < work p \<and> signalled q = signalled p"
proof (cases "go p")
  case Starting
  from less_work [OF step.announce [OF this]] Starting assms(2) show ?thesis by (simp add: work_def)
next
  case Ready
  from less_work [OF step.serve_late [OF this assms(3)]] Ready assms(2) show ?thesis by (simp add: work_def)
next
  case Serving
  from less_work [OF step.serve_nil [OF this assms(3)]] Serving assms(2) show ?thesis by (simp add: work_def)
next
  case (ServeFailed err)
  have "errCh p = None" using assms(1) ServeFailed by (simp add: channel_ok_def)
  from less_work [OF step.send [OF ServeFailed this]] ServeFailed assms(2) show ?thesis by (simp add: work_def)
next
  case ServeEnded
  from less_work [OF step.close_channel [OF this]] ServeEnded assms(2) show ?thesis by (simp add: work_def)
next
  case GoDone
  then have c: "closed p" using assms(1) by (simp add: channel_ok_def)
  show ?thesis
  proof (cases "errCh p")
    case None
    from less_work [OF step.receive_closed [of p, OF _ None c]] assms(2) show ?thesis by (simp add: work_def)
  next
    case (Some err)
    from less_work [OF step.receive [of p, OF _ Some]] assms(2) show ?thesis by (simp add: work_def)
  qed
qed

lemma progress:
  assumes "reachable p" "signalled p" "\<And>r. pc p \<noteq> Returned r"
  shows "\<exists>q. step p q \<and> work q < work p \<and> signalled q"
proof -
  have ok: "channel_ok p" "main_ok p" using reachable_ok [OF assms(1)] by simp_all
  have "\<exists>q. step p q \<and> work q < work p \<and> signalled q = signalled p"
  proof (cases "pc p")
    case Select
    from less_work [OF step.select_signal [OF this assms(2)]] Select assms(2) show ?thesis by (simp add: work_def)
  next
    case Stopping
    from less_work [OF step.stop_accepting [OF this]] Stopping assms(2) show ?thesis by (simp add: work_def)
  next
    case Draining
    show ?thesis
    proof (cases "inflight p")
      case 0
      from less_work [OF step.graceful_stop [OF Draining 0]] Draining assms(2) show ?thesis by (simp add: work_def)
    next
      case (Suc n)
      from less_work [OF step.rpc_end [OF Suc]] Suc assms(2) show ?thesis by (simp add: work_def)
    qed
  next
    case Receiving
    then have "\<not> accepting p" using ok by (simp add: main_ok_def)
    with receiving_progress [OF ok(1) Receiving] show ?thesis by simp
  next
    case (Returned r)
    with assms(3) show ?thesis by blast
  qed
  with assms(2) show ?thesis by simp
qed

lemma finishes:
  assumes "reachable p" "signalled p"
  shows "\<exists>q r. step\<^sup>*\<^sup>* p q \<and> pc q = Returned r"
  using assms
proof (induction "work p" arbitrary: p rule: less_induct)
  case less
  show ?case
  proof (cases "\<exists>r. pc p = Returned r")
    case False
    then obtain q where q: "step p q" "work q < work p" "signalled q" using progress [OF less.prems] by blast
    have "reachable q" using less.prems(1) q(1) by (rule reachable_step)
    from less.hyps [OF q(2) this q(3)] q(1) show ?thesis by (meson converse_rtranclp_into_rtranclp)
  qed blast
qed

subsection \<open>Properties\<close>

text \<open>\<open>run\<close> returns without error only after a signal, with the server stopped, no RPC in
  flight and the goroutine ended; it returns an error only after \<open>Serve\<close> has returned one,
  and then that error.\<close>

lemma shutdown_result:
  assumes "reachable p" "pc p = Returned r"
  shows "case r of
      None \<Rightarrow> signalled p \<and> \<not> accepting p \<and> inflight p = 0 \<and> go p = GoDone
    | Some e \<Rightarrow> go p \<in> {ServeEnded, GoDone} \<and> (\<exists>err. e = Wrapped ''gRPC server: '' err [])"
  using reachable_ok [OF assms(1)] assms(2) by (auto simp: main_ok_def split: option.splits)

text \<open>Once the signal has arrived \<open>run\<close> can always return, whatever has happened before:
  the goroutine's send never waits for a reader and the main goroutine never waits for a
  channel nobody will close; every state but the last has a step that leaves less work.\<close>

lemma shutdown_completes:
  assumes "reachable p" "signalled p"
  shows "(\<exists>q r. step\<^sup>*\<^sup>* p q \<and> pc q = Returned r)
    \<and> ((\<exists>r. pc p = Returned r) \<or> (\<exists>q. step p q \<and> work q < work p))"
  using finishes [OF assms] progress [OF assms] by blast

text \<open>A run: the server serves, a request arrives, the signal follows.\<close>

abbreviation serving :: process where
  "serving \<equiv> listening\<lparr>go := Serving, messages := [''gRPC server ready'']\<rparr>"

lemma announced: "reachable (listening\<lparr>go := Ready, messages := [''gRPC server ready'']\<rparr>)"
  using reachable_step [OF reachable_start step.announce] by (simp add: listening_def)

lemma serving_reachable: "reachable serving"
  using reachable_step [OF announced step.serve] by (simp add: listening_def)

lemma sample_run: "reachable (serving\<lparr>inflight := 1, signalled := True\<rparr>)"
proof -
  have "reachable (serving\<lparr>inflight := Suc (inflight serving)\<rparr>)"
    by (rule reachable_step [OF serving_reachable], rule step.rpc_start) (simp_all add: listening_def)
  from reachable_step [OF this step.signal] show ?thesis by (simp add: listening_def)
qed

lemma shutdown_completes_witness:
  "\<exists>q r. step\<^sup>*\<^sup>* (serving\<lparr>inflight := 1, signalled := True\<rparr>) q \<and> pc q = Returned r"
  using shutdown_completes [OF sample_run] by simp

lemma sample_failure: "reachable (serving\<lparr>go := ServeEnded, pc := Returned (Some (Wrapped ''gRPC server: '' (ErrorText ''x'') []))\<rparr>)"
proof -
  let ?e = "Wrapped ''gRPC server: '' (ErrorText ''x'') []"
  have "reachable (serving\<lparr>go := ServeFailed (ErrorText ''x'')\<rparr>)"
    by (rule reachable_step [OF serving_reachable], rule step.serve_error) (simp_all add: listening_def)
  moreover have "step (serving\<lparr>go := ServeFailed (ErrorText ''x'')\<rparr>) (serving\<lparr>go := ServeEnded, errCh := Some ?e\<rparr>)"
    using step.send [of "serving\<lparr>go := ServeFailed (ErrorText ''x'')\<rparr>" "ErrorText ''x''"] by (simp add: listening_def)
  ultimately have "reachable (serving\<lparr>go := ServeEnded, errCh := Some ?e\<rparr>)" by (rule reachable_step)
  moreover have "step (serving\<lparr>go := ServeEnded, errCh := Some ?e\<rparr>) (serving\<lparr>go := ServeEnded, pc := Returned (Some ?e)\<rparr>)"
    using step.receive [of "serving\<lparr>go := ServeEnded, errCh := Some ?e\<rparr>" ?e] by (simp add: listening_def)
  ultimately show ?thesis by (rule reachable_step)
qed

lemma shutdown_result_witness:
  "\<exists>p. reachable p \<and> (\<exists>e. pc p = Returned (Some e)) \<and> go p \<in> {ServeEnded, GoDone}"
  using shutdown_result [OF sample_failure] sample_failure by fastforce

text \<open>C33 (error): a shutdown can end in an error although nothing failed: when the signal is handled before the
  goroutine has called \<open>Serve\<close>, \<open>Serve\<close> finds a stopped server and \<open>run\<close> returns its error,
  with which \<open>main\<close> exits with status 1.\<close>

theorem early_signal_fails:
  "\<exists>p. reachable p \<and> signalled p \<and> pc p = Returned (Some (Wrapped ''gRPC server: '' ErrServerStopped []))
    \<and> messages p = [''gRPC server ready'', ''shutdown signal received'']
    \<and> exit_status (Fatal (Wrapped ''gRPC server: '' ErrServerStopped [])) = 1"
proof -
  define p where "p = listening\<lparr>go := Ready, messages := [''gRPC server ready'']\<rparr>"
  let ?e = "Wrapped ''gRPC server: '' ErrServerStopped []"
  note p_defs = p_def listening_def
  have 1: "reachable (p\<lparr>signalled := True\<rparr>)" unfolding p_def by (rule reachable_step [OF announced step.signal])
  define q where "q = p\<lparr>signalled := True, pc := Stopping, messages := [''gRPC server ready'', ''shutdown signal received'']\<rparr>"
  have 2: "reachable q"
    using reachable_step [OF 1 step.select_signal] by (simp add: q_def p_defs)
  have 3: "reachable (q\<lparr>pc := Draining, accepting := False\<rparr>)"
    using reachable_step [OF 2 step.stop_accepting] by (simp add: q_def)
  have 4: "reachable (q\<lparr>pc := Receiving, accepting := False\<rparr>)"
    using reachable_step [OF 3 step.graceful_stop] by (simp add: q_def p_defs)
  have 5: "reachable (q\<lparr>pc := Receiving, accepting := False, go := ServeFailed ErrServerStopped\<rparr>)"
    using reachable_step [OF 4 step.serve_late] by (simp add: q_def p_defs)
  have 6: "reachable (q\<lparr>pc := Receiving, accepting := False, go := ServeEnded, errCh := Some ?e\<rparr>)"
    using reachable_step [OF 5 step.send [of _ ErrServerStopped]] by (simp add: q_def p_defs)
  have 7: "reachable (q\<lparr>pc := Returned (Some ?e), accepting := False, go := ServeEnded, errCh := None\<rparr>)"
    using reachable_step [OF 6 step.receive [of _ ?e]] by (simp add: q_def p_defs)
  then show ?thesis by (intro exI [of _ "q\<lparr>pc := Returned (Some ?e), accepting := False, go := ServeEnded, errCh := None\<rparr>"])
    (simp add: q_def)
qed

end
