(* ===== verification/Overlap.thy ===== *)
theory Overlap
  imports Protocol
begin

text \<open>
  What requests of one user do to the session table, one after another and at the same time.
  Requests that follow one another leave at most one row per owner, even when statements fail
  (\<open>serial_requests_unique\<close>); two requests that overlap can leave two
  (\<open>overlapping_rpcs_duplicate\<close>).  Neither touches the rows of other users (\<open>rpcs_isolated\<close>).
\<close>

subsection \<open>One after another\<close>

definition serially :: "environment \<Rightarrow> client \<Rightarrow> mariadb_store \<Rightarrow> logger \<Rightarrow> check_request option list \<Rightarrow> world \<Rightarrow> world" where
  "serially e c s lg reqs w = fold (\<lambda>req v. snd (ext_check (wired e c s lg) req v)) reqs w"

lemma serially_snoc: "serially e c s lg (reqs @ [req]) w = snd (ext_check (wired e c s lg) req (serially e c s lg reqs w))"
  by (simp add: serially_def)

text \<open>The instant a lookup at the \<open>n\<close>-th reading of the clock compares with.\<close>

definition cutoff :: "environment \<Rightarrow> mariadb_store \<Rightarrow> nat \<Rightarrow> time" where
  "cutoff e s n = arg_time e (add_days (clock e n) (sint (- sessionMaxAge s)))"

text \<open>No owner twice, and no row older than a cutoff of the period \<open>I\<close>.\<close>

definition settled :: "environment \<Rightarrow> mariadb_store \<Rightarrow> nat set \<Rightarrow> database \<Rightarrow> bool" where
  "settled e s I d \<longleftrightarrow> sorted_wrt (\<lambda>r q. \<not> text_eq e (sr_user_id r) (sr_user_id q)) (sessions d)
     \<and> (\<forall>r \<in> set (sessions d). \<forall>n \<in> I. cutoff e s n \<le> sr_created_at r)"

lemma settled_cong:
  assumes "map sr_user_id (sessions d') = map sr_user_id (sessions d)"
    and "map sr_created_at (sessions d') = map sr_created_at (sessions d)"
  shows "settled e s I d' \<longleftrightarrow> settled e s I d"
proof -
  have a: "sorted_wrt (\<lambda>r q. \<not> text_eq e (sr_user_id r) (sr_user_id q)) rows
      \<longleftrightarrow> sorted_wrt (\<lambda>x y. \<not> text_eq e x y) (map sr_user_id rows)" for rows by (simp add: sorted_wrt_map)
  have b: "(\<forall>r \<in> set rows. \<forall>n \<in> I. cutoff e s n \<le> sr_created_at r)
      \<longleftrightarrow> (\<forall>t \<in> set (map sr_created_at rows). \<forall>n \<in> I. cutoff e s n \<le> t)" for rows by simp
  show ?thesis unfolding settled_def a b assms by simp
qed

lemma find_settled: "settled e s I (db (snd (find_by_user_id e s u w))) \<longleftrightarrow> settled e s I (db w)"
proof (rule settled_cong)
  show "map sr_user_id (sessions (db (snd (find_by_user_id e s u w)))) = map sr_user_id (sessions (db w))"
    by (cases rule: find_cases [of e s u w]) (auto simp: refreshed_ids)
qed (rule find_by_user_id_created)

text \<open>A lookup that answers no session has seen that no row belongs to the user.\<close>

lemma find_none_absent:
  assumes "find_by_user_id e s u w = (Inr None, w')" "settled e s I (db w)" "now_calls w \<in> I"
  shows "\<forall>r \<in> set (sessions (db w')). \<not> text_eq e (sr_user_id r) u"
proof (cases rule: find_cases [of e s u w])
  case absent
  then have "db w' = db w" using assms(1) by simp
  with absent(1) assms(2,3) show ?thesis by (auto simp: live_rows_def settled_def cutoff_def filter_empty_conv)
qed (use assms in auto)

lemma find_clock: "now_calls w < now_calls (snd (find_by_user_id e s u w)) \<and> now_calls (snd (find_by_user_id e s u w)) \<le> now_calls w + 3"
  by (simp add: find_by_user_id_def buildSessionData_def Let_def split_def split: sum.split)

lemma create_clock:
  "now_calls w \<le> now_calls (snd (create_session e s u w)) \<and> now_calls (snd (create_session e s u w)) \<le> now_calls w + 3"
  "sql_calls (snd (create_session e s u w)) \<noteq> sql_calls w \<Longrightarrow> now_calls (snd (create_session e s u w)) = now_calls w + 3"
  by (auto simp: create_session_def buildSessionData_def Let_def split_def split: sum.splits)

lemma create_settled:
  assumes "settled e s I (db w)" "\<forall>r \<in> set (sessions (db w)). \<not> text_eq e (sr_user_id r) u"
    and "\<forall>m \<in> I. \<forall>n \<in> I. cutoff e s m \<le> col_time e (clock e n)"
    and "{now_calls w ..< now_calls (snd (create_session e s u w))} \<subseteq> I"
  shows "settled e s I (db (snd (create_session e s u w)))"
proof -
  have add: "settled e s I ((db w)\<lparr>sessions := sessions (db w) @ [created_row e s u w oid sid]\<rparr>)"
    if "sql_calls (snd (create_session e s u w)) \<noteq> sql_calls w" for oid sid
  proof -
    from create_clock(2) [OF that] assms(4) have "now_calls w + 2 \<in> I" by (auto simp: subset_iff)
    with assms(1-3) show ?thesis by (auto simp: settled_def sorted_wrt_append created_row_def)
  qed
  show ?thesis
  proof (cases rule: create_cases [of e w s u])
    case (created sid oid)
    with add show ?thesis by simp
  next
    case (insert_failed m sid oid)
    with add assms(1) show ?thesis by auto
  qed (use assms(1) in simp)
qed


lemma ensure_settled:
  assumes "settled e s I (db w)" "\<forall>m \<in> I. \<forall>n \<in> I. cutoff e s m \<le> col_time e (clock e n)"
    and "EnsureSession (mariadb_service e s lg) ck em w = (r, w')" "{now_calls w ..< now_calls w'} \<subseteq> I"
  shows "settled e s I (db w')"
proof -
  have user: "db w2 = db w \<and> now_calls w2 = now_calls w"
    if "FindByEmail (svc_users (mariadb_service e s lg)) em (asked (mariadb_service e s lg) em w) = (x, w2)" for x w2
  proof -
    have "w2 = snd (find_by_email e em (asked (mariadb_service e s lg) em w))" using that by simp
    then show ?thesis by simp
  qed
  have look: "settled e s I (db w3)"
    if "FindByUserID (svc_sessions (mariadb_service e s lg)) u w2 = (x, w3)" "db w2 = db w" for u w2 x w3
    using find_settled [of e s I u w2] assms(1) that by simp
  have new: "settled e s I (db w4)"
    if "FindByUserID (svc_sessions (mariadb_service e s lg)) u w2 = (Inr None, w3)" "db w2 = db w" "now_calls w2 = now_calls w"
      "Create (svc_sessions (mariadb_service e s lg)) u w3 = (x, w4)" "now_calls w4 = now_calls w'" for u w2 w3 x w4
  proof -
    have f: "find_by_user_id e s u w2 = (Inr None, w3)" and c: "create_session e s u w3 = (x, w4)"
      using that(1,4) by simp_all
    have n: "now_calls w2 < now_calls w3" "now_calls w3 \<le> now_calls w4"
      using find_clock [of w2 e s u] create_clock(1) [of w3 e s u] f c by simp_all
    with assms(4) that(3,5) have I: "now_calls w2 \<in> I" "{now_calls w3 ..< now_calls w4} \<subseteq> I" by (auto simp: subset_iff)
    have "settled e s I (db w2)" using assms(1) that(2) by simp
    from find_none_absent [OF f this I(1)] create_settled [of e s I w3 u] look [OF that(1,2)] assms(2) I(2) c
    show ?thesis by simp
  qed
  show ?thesis
  proof (cases rule: ensure_cases [of ck "mariadb_service e s lg" em w])
    case fast
    then show ?thesis using assms(1,3) by simp
  next
    case (no_user err w2)
    then show ?thesis using user [of "Inl err" w2] assms(1,3) by simp
  next
    case (inactive usr w2)
    then show ?thesis using user [of "Inr usr" w2] assms(1,3) by simp
  next
    case (lookup_failed usr w2 err w3)
    then show ?thesis using look [of "u_ID usr" w2 "Inl err" w3] user [of "Inr usr" w2] assms(3) by simp
  next
    case (reused usr w2 ses w3)
    then show ?thesis using look [of "u_ID usr" w2 "Inr (Some ses)" w3] user [of "Inr usr" w2] assms(3) by auto
  next
    case (create_failed usr w2 w3 err w4)
    then show ?thesis using new [of "u_ID usr" w2 w3 "Inl err" w4] user [of "Inr usr" w2] assms(3) by simp
  next
    case (created usr w2 w3 ses w4)
    then show ?thesis using new [of "u_ID usr" w2 w3 "Inr ses" w4] user [of "Inr usr" w2] assms(3) by auto
  qed
qed

lemma ensure_clock:
  "now_calls w \<le> now_calls (snd (EnsureSession (mariadb_service e s lg) ck em w))
   \<and> now_calls (snd (EnsureSession (mariadb_service e s lg) ck em w)) \<le> now_calls w + 6"
proof -
  let ?w2 = "snd (find_by_email e em (asked (mariadb_service e s lg) em w))"
  have f: "now_calls v < now_calls v1" "now_calls v1 \<le> now_calls v + 3" if "find_by_user_id e s u v = (x, v1)" for u v x v1
    using find_clock [of v e s u] that by simp_all
  have c: "now_calls v \<le> now_calls v1" "now_calls v1 \<le> now_calls v + 3" if "create_session e s u v = (x, v1)" for u v x v1
    using create_clock(1) [of v e s u] that by simp_all
  have u: "now_calls w2 = now_calls w" if "find_by_email e em (asked (mariadb_service e s lg) em w) = (x, w2)" for x w2
    using find_by_email_frame(4) [of e em "asked (mariadb_service e s lg) em w"] that by simp
  show ?thesis
    by (cases rule: ensure_cases [of ck "mariadb_service e s lg" em w]; fastforce dest: f c u)
qed


text \<open>An RPC reaches the tables and the clock only through the service.\<close>

lemma check_touches:
  obtains (outside) "db (snd (ext_check (wired e c s lg) req w)) = db w"
      "now_calls (snd (ext_check (wired e c s lg) req w)) = now_calls w"
  | (inside) em w2 r w3 where "EnsureSession (mariadb_service e s lg) (cookie_of req) em w2 = (r, w3)"
      "db w2 = db w" "now_calls w2 = now_calls w" "db (snd (ext_check (wired e c s lg) req w)) = db w3"
      "now_calls (snd (ext_check (wired e c s lg) req w)) = now_calls w3"
proof -
  let ?chk = "Check e c (cookie_of req) (host_of req) (proto_of req) (uri_of req) (noted (wired e c s lg) req w)"
  obtain x w2 where chk: "?chk = (x, w2)" by fastforce
  then have "w2 = snd ?chk" by simp
  then have w2: "db w2 = db w" "now_calls w2 = now_calls w" by simp_all
  consider (answer) "\<forall>em cks. x \<noteq> Inr (em, [], cks)" | (email) em cks where "x = Inr (em, [], cks)" by blast
  then show thesis
  proof cases
    case answer
    show ?thesis by (rule outside) (use answer chk w2 in \<open>auto simp: ext_check_eq split: sum.splits\<close>)
  next
    case email
    obtain r w3 where ens: "EnsureSession (mariadb_service e s lg) (cookie_of req) em w2 = (r, w3)" by fastforce
    show ?thesis
      by (rule inside [OF ens w2]) (use email chk ens in \<open>simp_all add: ext_check_eq Let_def split: sum.split\<close>)
  qed
qed

lemma check_clock:
  "now_calls w \<le> now_calls (snd (ext_check (wired e c s lg) req w))
   \<and> now_calls (snd (ext_check (wired e c s lg) req w)) \<le> now_calls w + 6"
proof (cases rule: check_touches [of e c s lg req w])
  case (inside em w2 r w3)
  with ensure_clock [of w2 e s lg "cookie_of req" em] show ?thesis by simp
qed simp

lemma check_settled:
  assumes "settled e s I (db w)" "\<forall>m \<in> I. \<forall>n \<in> I. cutoff e s m \<le> col_time e (clock e n)"
    and "{now_calls w ..< now_calls (snd (ext_check (wired e c s lg) req w))} \<subseteq> I"
  shows "settled e s I (db (snd (ext_check (wired e c s lg) req w)))"
proof (cases rule: check_touches [of e c s lg req w])
  case (inside em w2 r w3)
  with ensure_settled [OF _ assms(2) inside(1)] assms(1,3) show ?thesis by simp
qed (use assms(1) in simp)

lemma serially_clock:
  "now_calls w \<le> now_calls (serially e c s lg reqs w) \<and> now_calls (serially e c s lg reqs w) \<le> now_calls w + 6 * length reqs"
proof (induction reqs rule: rev_induct)
  case (snoc req reqs)
  with check_clock [of "serially e c s lg reqs w" e c s lg req] show ?case by (simp add: serially_snoc)
qed (simp add: serially_def)

lemma serially_settled:
  assumes "settled e s I (db w)" "\<forall>m \<in> I. \<forall>n \<in> I. cutoff e s m \<le> col_time e (clock e n)"
  shows "{now_calls w ..< now_calls (serially e c s lg reqs w)} \<subseteq> I \<Longrightarrow> settled e s I (db (serially e c s lg reqs w))"
proof (induction reqs rule: rev_induct)
  case (snoc req reqs)
  let ?v = "serially e c s lg reqs w"
  have "now_calls w \<le> now_calls ?v" "now_calls ?v \<le> now_calls (serially e c s lg (reqs @ [req]) w)"
    using serially_clock [of w e c s lg reqs] check_clock [of ?v e c s lg req] by (simp_all add: serially_snoc)
  with snoc.prems have "{now_calls w ..< now_calls ?v} \<subseteq> I"
    "{now_calls ?v ..< now_calls (serially e c s lg (reqs @ [req]) w)} \<subseteq> I" by (auto simp: subset_iff)
  with snoc.IH check_settled [OF _ assms(2), of ?v c lg req] show ?case by (simp add: serially_snoc)
qed (simp add: serially_def assms(1))

text \<open>C14 (invariant): requests that are served one after another never give a user a second session row, whichever
  statements fail before or after they took effect: when no owner has two rows and no row reaches
  the maximum age while the requests are served, no owner has two rows afterwards.\<close>

theorem serial_requests_unique:
  assumes "w' = serially e c s lg reqs w" "I = {now_calls w ..< now_calls w'}"
    and "\<forall>r \<in> set (sessions (db w)). \<forall>n \<in> I. arg_time e (add_days (clock e n) (sint (- sessionMaxAge s))) \<le> sr_created_at r"
    and "\<forall>m \<in> I. \<forall>n \<in> I. arg_time e (add_days (clock e m) (sint (- sessionMaxAge s))) \<le> col_time e (clock e n)"
    and "sorted_wrt (\<lambda>r q. \<not> text_eq e (sr_user_id r) (sr_user_id q)) (sessions (db w))"
  shows "sorted_wrt (\<lambda>r q. \<not> text_eq e (sr_user_id r) (sr_user_id q)) (sessions (db w'))"
proof -
  have "settled e s I (db w)" "\<forall>m \<in> I. \<forall>n \<in> I. cutoff e s m \<le> col_time e (clock e n)"
    using assms(3-5) by (simp_all add: settled_def cutoff_def)
  from serially_settled [OF this, of c lg reqs] show ?thesis using assms(1,2) by (simp add: settled_def)
qed

text \<open>An environment whose first statement on the sessions table is reported as failed after it was
  carried out.\<close>

definition flaky_env :: environment where
  "flaky_env = sample_env\<lparr>clock := (\<lambda>n. start_time), sql_fault := (\<lambda>n. if n = 2 then Some (''lost'', True) else None)\<rparr>"

lemma serial_requests_unique_witness:
  "sorted_wrt (\<lambda>r q. sr_user_id r \<noteq> sr_user_id q)
     (sessions (db (serially flaky_env sample_client sample_store LevelInfo [sample_request, sample_request, sample_request] alice_world)))"
proof -
  have eq: "text_eq flaky_env = (=)" by (simp add: flaky_env_def sample_env_def)
  show ?thesis
  proof (rule serial_requests_unique [OF refl refl, of alice_world flaky_env, unfolded eq])
  qed (simp_all add: alice_facts flaky_env_def sample_env_def start_time_def add_days_def wrap64_id unix_secs_def nanos_per_sec_def)
qed


subsection \<open>At the same time\<close>

text \<open>The phases of the service, seen from its RPC.\<close>

lemma rpc_advances_inside:
  "advances n e s lg ph w = (q, w') \<Longrightarrow> \<forall>r. q \<noteq> Finished r \<Longrightarrow>
   rpc_advances n e c s lg (InService req em ph) w = (InService req em q, w')"
proof (induction n arbitrary: ph w)
  case (Suc n)
  obtain p v where p: "advance e s lg ph w = (p, v)" by fastforce
  have "\<forall>r. ph \<noteq> Finished r" using Suc.prems by (cases n) auto
  with p have "rpc_advance e c s lg (InService req em ph) w = (InService req em p, v)"
    by (cases ph) (auto simp: rpc_advance_service)
  with Suc.IH [of p v] Suc.prems p show ?case by simp
qed simp

lemma logged_in_enters:
  assumes "endpointURL c \<noteq> []" "url_error e (endpointURL c) = None"
    and "\<forall>n. round_trip e n (login_request c req) = Inr resp" "rs_status resp = 200"
    and "em = header_get (rs_header resp) ''X-Authentik-Email''" "em \<noteq> []"
  shows "\<exists>w'. rpc_advance e c s lg (Received req) w = (InService req em (Arrived (cookie_of req) em), w') \<and> db w' = db w"
proof -
  let ?chk = "Check e c (cookie_of req) (host_of req) (proto_of req) (uri_of req) (noted (wired e c s lg) req w)"
  have "fst ?chk = Inr (em, [], [])"
    using assms by (simp add: Check_def new_request_def http_do_def read_response_def login_request_def
        authentik_request_def Let_def)
  then obtain w1 where chk: "?chk = (Inr (em, [], []), w1)" by (metis prod.collapse)
  then have "db w1 = db w" by (rule check_later(2))
  with chk show ?thesis by simp
qed

lemma rpc_reaches_insert:
  assumes "endpointURL c \<noteq> []" "url_error e (endpointURL c) = None"
    and "\<forall>n. round_trip e n (login_request c req) = Inr resp" "rs_status resp = 200"
    and "em = header_get (rs_header resp) ''X-Authentik-Email''" "em \<noteq> []"
    and "\<forall>k. sql_fault e k = None" "users (db w) = [u]" "text_eq e (ur_email u) em" "ur_status u = ''active''"
    and "sessions (db w) = []" "\<not> hasGhostSessionCookie (cookie_of req)"
  shows "\<exists>usr w'. rpc_advances 4 e c s lg (Received req) w = (InService req em (Insert em usr), w')
    \<and> u_ID usr = ur_id u \<and> db w' = db w"
proof -
  obtain w1 where 1: "rpc_advance e c s lg (Received req) w = (InService req em (Arrived (cookie_of req) em), w1)"
    "db w1 = db w" using logged_in_enters [OF assms(1-6)] by blast
  have us: "users (db w1) = [u]" "sessions (db w1) = []" using assms(8,11) 1(2) by simp_all
  obtain usr w2 where 2: "advances 3 e s lg (Arrived (cookie_of req) em) w1 = (Insert em usr, w2)"
    "u_ID usr = ur_id u" "db w2 = db w1"
    using reaches_insert [OF assms(7)[rule_format] us(1) assms(9,10) us(2) assms(12)] by blast
  have "(4 :: nat) = Suc 3" by simp
  then have "rpc_advances 4 e c s lg (Received req) w = (InService req em (Insert em usr), w2)"
    using rpc_advances_inside [OF 2(1), of c req em] 1(1) by (simp only: rpc_advances.simps) simp
  with 1(2) 2(2,3) show ?thesis by auto
qed

lemma rpc_insert_answers:
  assumes "\<forall>k. sql_fault e k = None" "\<forall>k. entropy e k \<noteq> None"
  shows "\<exists>sid row w'. rpc_advances 2 e c s lg (InService req em (Insert em usr)) w
      = (Answered (deniedRedirectWithCookie ghostAdminPath (buildSetCookieHeader (wired e c s lg) (signCookie sid (dbHash s)))), w')
    \<and> sessions (db w') = sessions (db w) @ [row] \<and> sr_session_id row = sid \<and> sr_user_id row = u_ID usr"
proof -
  obtain sid row w1 where 1: "advance e s lg (Insert em usr) w = (Finished (Inr (signCookie sid (dbHash s))), w1)"
    "sessions (db w1) = sessions (db w) @ [row]" "sr_session_id row = sid" "sr_user_id row = u_ID usr"
    using insert_adds [OF assms[rule_format]] by blast
  have "advances 1 e s lg (Insert em usr) w = (Finished (Inr (signCookie sid (dbHash s))), w1)"
    using 1(1) by simp
  from rpc_advances_service [OF this, of c req em] obtain w2 where
    "rpc_advances 2 e c s lg (InService req em (Insert em usr)) w
      = (Answered (deniedRedirectWithCookie ghostAdminPath (buildSetCookieHeader (wired e c s lg) (signCookie sid (dbHash s)))), w2)"
    "db w2 = db w1"
    by (auto simp: reply_def numeral_2_eq_2)
  with 1 show ?thesis by auto
qed

text \<open>C15 (safety): two overlapping RPCs of a logged-in user who has no session can both pass the
  lookup before either inserts; then both plant a cookie, each for a session of its own, and the
  user has two session rows: so it is when Authentik answers every such question with 200 and the email of the one staff
  user, who is active, the sessions table is empty, and nothing fails.\<close>

theorem overlapping_rpcs_duplicate:
  assumes "endpointURL c \<noteq> []" "url_error e (endpointURL c) = None"
    and "\<forall>n. round_trip e n (login_request c req) = Inr resp" "rs_status resp = 200"
    and "em = header_get (rs_header resp) ''X-Authentik-Email''" "em \<noteq> []"
    and "\<forall>k. sql_fault e k = None" "users (db w) = [u]" "text_eq e (ur_email u) em" "ur_status u = ''active''"
    and "sessions (db w) = []" "\<not> hasGhostSessionCookie (cookie_of req)" "\<forall>k. entropy e k \<noteq> None"
  shows "\<exists>sid1 sid2 w'. (rpc_step e c s lg)\<^sup>*\<^sup>* ([Received req, Received req], w)
      ([Answered (deniedRedirectWithCookie ghostAdminPath (buildSetCookieHeader (wired e c s lg) (signCookie sid1 (dbHash s)))),
        Answered (deniedRedirectWithCookie ghostAdminPath (buildSetCookieHeader (wired e c s lg) (signCookie sid2 (dbHash s))))], w')
    \<and> map sr_session_id (sessions (db w')) = [sid1, sid2] \<and> map sr_user_id (sessions (db w')) = [ur_id u, ur_id u]"
proof -
  let ?R = "(rpc_step e c s lg)\<^sup>*\<^sup>*"
  let ?plant = "\<lambda>sid. Answered (deniedRedirectWithCookie ghostAdminPath (buildSetCookieHeader (wired e c s lg) (signCookie sid (dbHash s))))"
  note reach = rpc_reaches_insert [OF assms(1-7) _ assms(9,10) _ assms(12)]
  obtain usr1 w1 where 1: "rpc_advances 4 e c s lg (Received req) w = (InService req em (Insert em usr1), w1)"
    "u_ID usr1 = ur_id u" "db w1 = db w" using reach [OF assms(8,11)] by blast
  have "users (db w1) = [u]" "sessions (db w1) = []" using 1(3) assms(8,11) by simp_all
  from reach [OF this] obtain usr2 w2 where
    2: "rpc_advances 4 e c s lg (Received req) w1 = (InService req em (Insert em usr2), w2)" "u_ID usr2 = ur_id u" "db w2 = db w1"
    by blast
  obtain sid1 row1 w3 where 3: "rpc_advances 2 e c s lg (InService req em (Insert em usr1)) w2 = (?plant sid1, w3)"
    "sessions (db w3) = sessions (db w2) @ [row1]" "sr_session_id row1 = sid1" "sr_user_id row1 = u_ID usr1"
    using rpc_insert_answers [OF assms(7,13)] by blast
  obtain sid2 row2 w4 where 4: "rpc_advances 2 e c s lg (InService req em (Insert em usr2)) w3 = (?plant sid2, w4)"
    "sessions (db w4) = sessions (db w3) @ [row2]" "sr_session_id row2 = sid2" "sr_user_id row2 = u_ID usr2"
    using rpc_insert_answers [OF assms(7,13)] by blast
  have "?R ([Received req, Received req], w) ([InService req em (Insert em usr1), Received req], w1)"
    using rpc_run_at [of 0 "[Received req, Received req]"] 1(1) by fastforce
  also have "?R \<dots> ([InService req em (Insert em usr1), InService req em (Insert em usr2)], w2)"
    using rpc_run_at [of 1 "[InService req em (Insert em usr1), Received req]"] 2(1) by fastforce
  also have "?R \<dots> ([?plant sid1, InService req em (Insert em usr2)], w3)"
    using rpc_run_at [of 0 "[InService req em (Insert em usr1), InService req em (Insert em usr2)]"] 3(1) by fastforce
  also have "?R \<dots> ([?plant sid1, ?plant sid2], w4)"
    using rpc_run_at [of 1 "[?plant sid1, InService req em (Insert em usr2)]"] 4(1) by fastforce
  finally have "?R ([Received req, Received req], w) ([?plant sid1, ?plant sid2], w4)" .
  moreover have "sessions (db w4) = [row1, row2]" using 1 2 3 4 assms(11) by simp
  ultimately show ?thesis using 1 2 3 4 by (intro exI [of _ sid1] exI [of _ sid2] exI [of _ w4]) auto
qed

lemma overlapping_rpcs_duplicate_witness:
  "\<exists>sid1 sid2 ths w'. (rpc_step sample_env sample_client sample_store LevelInfo)\<^sup>*\<^sup>*
      ([Received sample_request, Received sample_request], alice_world) (ths, w')
    \<and> map sr_session_id (sessions (db w')) = [sid1, sid2] \<and> map sr_user_id (sessions (db w')) = [ur_id alice, ur_id alice]"
proof -
  have "cookie_of sample_request = []" by (simp add: cookie_of_def sample_request_def header_at_def)
  then have no_cookie: "\<not> hasGhostSessionCookie (cookie_of sample_request)" by simp
  have "endpointURL sample_client \<noteq> []" "url_error sample_env (endpointURL sample_client) = None"
    "\<forall>n. round_trip sample_env n (login_request sample_client sample_request) = Inr authentik_ok" "rs_status authentik_ok = 200"
    "''alice@example.com'' = header_get (rs_header authentik_ok) ''X-Authentik-Email''" "''alice@example.com'' \<noteq> []"
    by (simp_all add: sample_client_def NewClient_def sample_env_def authentik_ok_def header_get_def)
  from overlapping_rpcs_duplicate [OF this alice_facts(3,1,5,6,2) no_cookie alice_facts(4), where s = sample_store and lg = LevelInfo]
  show ?thesis by (elim exE conjE, intro exI conjI)
qed


subsection \<open>Other users\<close>

text \<open>The row of somebody else: no id of the table is equal to its id but its own, and no user an RPC
  may act for is its owner.\<close>

definition foreign :: "environment \<Rightarrow> (string \<Rightarrow> bool) \<Rightarrow> database \<Rightarrow> session_row \<Rightarrow> bool" where
  "foreign e acts d r \<longleftrightarrow> (\<forall>q \<in> set (sessions d). text_eq e (sr_session_id r) (sr_session_id q) \<longrightarrow> sr_user_id q = sr_user_id r)
     \<and> (\<forall>uid. acts uid \<longrightarrow> sr_user_id r \<noteq> uid \<and> \<not> text_eq e (sr_user_id r) uid)"

lemma foreign_before: "foreign e acts d' r \<Longrightarrow> grows d d' \<Longrightarrow> foreign e acts d r"
  unfolding foreign_def grows_def by metis

lemma update_keeps:
  assumes "r \<in> set (sessions d)" "\<not> text_eq e (sr_session_id r) sid"
  shows "r \<in> set (sessions (snd (update_session e data now sid t d)))"
  using assms by (force simp: update_session_def)

lemma advance_keeps:
  assumes "phase_ok e s (db w) em ph" "\<And>uid. staff e (db w) em uid \<Longrightarrow> acts uid" "foreign e acts (db w) r"
    and "r \<in> set (sessions (db w))" "advance e s lg ph w = (ph', w')"
  shows "r \<in> set (sessions (db w'))"
proof (cases ph)
  case (Arrived ck em')
  with assms show ?thesis by (auto split: if_splits)
next
  case (Verify em')
  obtain x w1 where x: "find_by_email e em' w = (x, w1)" by fastforce
  have "db w1 = db w" using find_by_email_frame(1) [of e em' w] x by simp
  with assms x Verify show ?thesis by auto
next
  case (LookUp em' usr)
  with assms lookup_ok(2) [of e w em usr s lg ph' w'] show ?thesis by simp
next
  case (Refresh em' usr row)
  with assms(1,2) obtain q where q: "acts (u_ID usr)" "q \<in> set (sessions (db w))" "sr_session_id q = sr_session_id row"
    "sr_user_id q = u_ID usr \<or> text_eq e (sr_user_id q) (u_ID usr)" by (auto simp: owned_def)
  with assms(3) have miss: "\<not> text_eq e (sr_session_id r) (sr_session_id row)" unfolding foreign_def by metis
  obtain now0 w1 where n: "time_now e w = (now0, w1)" by fastforce
  obtain now w2 where n2: "time_now e w1 = (now, w2)" by fastforce
  let ?stmt = "update_session e (marshal_session_data (session_data_at now0 (u_ID usr) (sessionMaxAge s))) now (sr_session_id row)"
  obtain x w3 where x: "run_sql e ?stmt w2 = (x, w3)" by fastforce
  have "r \<in> set (sessions (db w2))" using assms(4) n n2 by simp
  with run_sql_db [of e ?stmt w2] update_keeps [OF _ miss] x have "r \<in> set (sessions (db w3))" by auto
  with assms(5) Refresh n n2 x show ?thesis by (cases x) (auto simp: buildSessionData_def)
next
  case (Insert em' usr)
  obtain x w1 where x: "create_session e s (u_ID usr) w = (x, w1)" by fastforce
  have "r \<in> set (sessions (db w1))" using x assms(4) by (cases rule: create_cases [of e w s "u_ID usr"]) auto
  with assms(5) Insert x show ?thesis by (cases x) auto
next
  case (Finished x)
  with assms show ?thesis by auto
qed

lemma rpc_keeps:
  assumes "rpc_ok e c s lg w req p" "\<And>em uid. logged_in e c req em \<Longrightarrow> member e (users (db w)) em uid \<Longrightarrow> acts uid"
    and "foreign e acts (db w) r" "r \<in> set (sessions (db w))" "rpc_advance e c s lg p w = (p', w')"
  shows "r \<in> set (sessions (db w'))"
proof (cases p)
  case (Received req')
  with assms(1,4,5) received_ok(3) [of e c s lg req w p' w'] show ?thesis by simp
next
  case (InService req' em ph)
  with assms(1) have ok: "req' = req" "vouched e c w req em" "phase_ok e s (db w) em ph" by simp_all
  show ?thesis
  proof (cases "\<exists>x. ph = Finished x")
    case True
    with assms(5) InService ok(1) have "db w' = db w" by (auto simp: reply_def split: sum.splits if_splits)
    with assms(4) show ?thesis by simp
  next
    case False
    obtain q v where q: "advance e s lg ph w = (q, v)" by fastforce
    have "w' = v" using assms(5) InService False q ok(1) by (cases ph; simp add: rpc_advance_service)
    moreover have "acts uid" if "staff e (db w) em uid" for uid
      using assms(2) [OF vouched_logged_in [OF ok(2)]] that by (simp add: member_staff)
    ultimately show ?thesis using advance_keeps [OF ok(3) _ assms(3,4) q] by simp
  qed
qed (use assms in auto)

text \<open>C13 (safety): RPCs do not touch other users' sessions.  However they interleave, a session row whose owner
  is none of the members Authentik named for the requests is in the table afterwards exactly as it was,
  data and update time included, when no other owner's session id is equal to its own under the
  collation.\<close>

theorem rpcs_isolated:
  assumes "(rpc_step e c s lg)\<^sup>*\<^sup>* (map Received reqs, w) (ths, w')" "r \<in> set (sessions (db w))"
    and "\<forall>req \<in> set reqs. \<forall>em uid. logged_in e c req em \<and> member e (users (db w)) em uid
      \<longrightarrow> sr_user_id r \<noteq> uid \<and> \<not> text_eq e (sr_user_id r) uid"
    and "\<forall>q \<in> set (sessions (db w')). text_eq e (sr_session_id r) (sr_session_id q) \<longrightarrow> sr_user_id q = sr_user_id r"
  shows "r \<in> set (sessions (db w'))"
proof -
  define acts where "acts uid \<longleftrightarrow> (\<exists>req \<in> set reqs. \<exists>em. logged_in e c req em \<and> member e (users (db w)) em uid)" for uid
  have foreign: "foreign e acts (db w') r" using assms(3,4) unfolding foreign_def acts_def by blast
  have "grows (db v) (db w') \<Longrightarrow> r \<in> set (sessions (db v))" if "(rpc_step e c s lg)\<^sup>*\<^sup>* (map Received reqs, w) (th, v)" for th v
    using that
  proof (induction rule: rtranclp_induct2)
    case refl
    show ?case by (rule assms(2))
  next
    case (step ths1 w1 ths2 w2)
    have start: "rpcs_inv e c s lg (users (db w)) reqs (map Received reqs, w)"
      by (simp add: rpcs_inv_def list_all2_conv_all_nth)
    from protocol_sim.run_inv [OF step.hyps(1) this] have inv: "users (db w1) = users (db w)"
      "list_all2 (rpc_ok e c s lg w1) reqs ths1" by (simp_all add: rpcs_inv_def)
    from step.hyps(2) obtain i p where i: "i < length ths1" "rpc_advance e c s lg (ths1 ! i) w1 = (p, w2)" by (rule rpc_step_elim)
    have len: "length reqs = length ths1" using inv(2) by (rule list_all2_lengthD)
    have ok: "rpc_ok e c s lg w1 (reqs ! i) (ths1 ! i)" using inv(2) i(1) len by (simp add: list_all2_conv_all_nth)
    have "later w1 w2" using rpc_advance_ok [OF ok i(2)] by simp
    then have g: "grows (db w1) (db w')" using step.prems by (auto simp: later_def intro: grows_trans)
    have "acts uid" if "logged_in e c (reqs ! i) em" "member e (users (db w1)) em uid" for em uid
      using that i(1) len unfolding acts_def inv(1) by (auto intro!: bexI [of _ "reqs ! i"])
    from rpc_keeps [OF ok this foreign_before [OF foreign g] step.IH [OF g] i(2)] show ?case .
  qed
  from this [OF assms(1)] show ?thesis by simp
qed


definition bob_session :: session_row where
  "bob_session = \<lparr>sr_id = ''b'', sr_session_id = ''bob'', sr_user_id = ''2'', sr_session_data = ''{}'',
     sr_created_at = start_time, sr_updated_at = start_time\<rparr>"

definition shared_world :: world where
  "shared_world = world_of (sample_db\<lparr>sessions := [alice_session, bob_session]\<rparr>)"

lemma rpcs_isolated_witness:
  "bob_session \<in> set (sessions (db (snd (ext_check (wired sample_env sample_client sample_store LevelInfo) sample_request shared_world))))"
proof -
  let ?sv = "wired sample_env sample_client sample_store LevelInfo"
  let ?w' = "snd (ext_check ?sv sample_request shared_world)"
  obtain resp where "fst (ext_check ?sv sample_request shared_world) = (resp, None)"
    using always_answers [of ?sv sample_request shared_world] by auto
  note run = run_alone [OF this]
  then have run: "(rpc_step sample_env sample_client sample_store LevelInfo)\<^sup>*\<^sup>* (map Received [sample_request], shared_world) ([Answered resp], ?w')"
    by simp
  have rows: "registry (db shared_world) = [grant_of alice_session, grant_of bob_session]"
    by (simp add: shared_world_def world_of_def registry_def)
  have named: "em = ''alice@example.com''" if "logged_in sample_env sample_client sample_request em" for em
    using that by (auto simp: logged_in_def sample_env_def authentik_ok_def header_get_def)
  have users: "users (db shared_world) = [alice, bob]" by (simp add: shared_world_def world_of_def sample_db_def)
  have eq: "text_eq sample_env = (=)" by (simp add: sample_env_def)
  show ?thesis
  proof (rule rpcs_isolated [OF run])
    show "bob_session \<in> set (sessions (db shared_world))" by (simp add: shared_world_def world_of_def)
    show "\<forall>req \<in> set [sample_request]. \<forall>em uid. logged_in sample_env sample_client req em
        \<and> member sample_env (users (db shared_world)) em uid
        \<longrightarrow> sr_user_id bob_session \<noteq> uid \<and> \<not> text_eq sample_env (sr_user_id bob_session) uid"
      by (auto simp: eq users member_def alice_def bob_def bob_session_def dest!: named)
    show "\<forall>q \<in> set (sessions (db ?w')). text_eq sample_env (sr_session_id bob_session) (sr_session_id q)
        \<longrightarrow> sr_user_id q = sr_user_id bob_session"
    proof (intro ballI impI)
      fix q assume q: "q \<in> set (sessions (db ?w'))" "text_eq sample_env (sr_session_id bob_session) (sr_session_id q)"
      from rpcs_new_grants [OF run] rows obtain new where new: "registry (db ?w') = [grant_of alice_session, grant_of bob_session] @ new"
        "\<forall>g \<in> set new. clean_id (gr_session g)" by (auto simp: earned_def)
      have "grant_of q \<in> set (registry (db ?w'))" using q(1) by (rule grant_registered)
      then have "grant_of q \<in> {grant_of alice_session, grant_of bob_session} \<union> set new" unfolding new(1) by auto
      moreover have "sr_session_id q = ''bob''" using q(2) by (simp add: eq bob_session_def)
      then have "\<not> clean_id (sr_session_id q)" by (simp add: clean_id_def)
      then have "grant_of q \<notin> set new" using new(2) by auto
      moreover have "grant_of q \<noteq> grant_of alice_session"
        using q(2) by (auto simp: eq grant_of_def bob_session_def alice_session_def)
      ultimately show "sr_user_id q = sr_user_id bob_session" by (auto simp: grant_of_def)
    qed
  qed
qed

end
