(* ===== verification/Serving.thy ===== *)
theory Serving
  imports Shutdown Overlap
begin

text \<open>
  The serving program as a whole: the shutdown protocol of \<open>Shutdown\<close>, which only counts the RPCs
  in flight, together with the RPCs of \<open>Rpcs\<close>, their phases and the world they share.  An RPC is in
  flight from its acceptance to its answer, so that \<open>GracefulStop\<close>, and with it \<open>run\<close>, waits for the
  answers.
\<close>

type_synonym system = "process \<times> check_request option list \<times> rpc list \<times> world"

definition busy :: "rpc \<Rightarrow> bool" where
  "busy th \<longleftrightarrow> 0 < remaining th"

text \<open>A step of the goroutines of \<open>run\<close>, the acceptance of an RPC, a phase of one, or its answer.\<close>

inductive system_step :: "environment \<Rightarrow> client \<Rightarrow> mariadb_store \<Rightarrow> logger \<Rightarrow> system \<Rightarrow> system \<Rightarrow> bool"
  for e c s lg where
  control: "step p q \<Longrightarrow> inflight q = inflight p \<Longrightarrow> system_step e c s lg (p, reqs, ths, w) (q, reqs, ths, w)"
| accept: "step p q \<Longrightarrow> inflight q = Suc (inflight p) \<Longrightarrow>
    system_step e c s lg (p, reqs, ths, w) (q, reqs @ [req], ths @ [Received req], w)"
| work_on: "i < length ths \<Longrightarrow> busy (ths ! i) \<Longrightarrow> rpc_advance e c s lg (ths ! i) w = (th, w') \<Longrightarrow> busy th \<Longrightarrow>
    system_step e c s lg (p, reqs, ths, w) (p, reqs, ths[i := th], w')"
| answer: "i < length ths \<Longrightarrow> busy (ths ! i) \<Longrightarrow> rpc_advance e c s lg (ths ! i) w = (th, w') \<Longrightarrow> \<not> busy th \<Longrightarrow>
    step p q \<Longrightarrow> inflight p = Suc (inflight q) \<Longrightarrow>
    system_step e c s lg (p, reqs, ths, w) (q, reqs, ths[i := th], w')"

inductive served :: "environment \<Rightarrow> client \<Rightarrow> mariadb_store \<Rightarrow> logger \<Rightarrow> world \<Rightarrow> system \<Rightarrow> bool"
  for e c s lg w0 where
  served_start: "served e c s lg w0 (listening, [], [], w0)"
| served_step: "served e c s lg w0 st \<Longrightarrow> system_step e c s lg st st' \<Longrightarrow> served e c s lg w0 st'"

inductive_cases system_step_elim: "system_step e c s lg (p, reqs, ths, w) st'"

lemma busy_iff: "busy th \<longleftrightarrow> (\<forall>resp. th \<noteq> Answered resp)"
  by (cases th) (simp_all add: busy_def)

subsection \<open>The invariant\<close>

text \<open>The counter of the shutdown protocol counts the busy RPCs, and each RPC is in a state its request
  allows.\<close>

definition flight_ok :: "environment \<Rightarrow> client \<Rightarrow> mariadb_store \<Rightarrow> logger \<Rightarrow> system \<Rightarrow> bool" where
  "flight_ok e c s lg st \<longleftrightarrow> (case st of (p, reqs, ths, w) \<Rightarrow>
     reachable p \<and> inflight p = length (filter busy ths) \<and> list_all2 (rpc_ok e c s lg w) reqs ths)"

lemma filter_update:
  "i < length xs \<Longrightarrow> length (filter P (xs[i := y])) + (if P (xs ! i) then 1 else 0)
     = length (filter P xs) + (if P y then 1 else 0)"
proof (induction xs arbitrary: i)
  case (Cons x xs)
  then show ?case by (cases i) auto
qed simp

lemma rpcs_update:
  assumes "list_all2 (rpc_ok e c s lg w) reqs ths" "i < length ths" "rpc_advance e c s lg (ths ! i) w = (th, w')"
  shows "list_all2 (rpc_ok e c s lg w') reqs (ths[i := th])"
proof -
  have len: "length reqs = length ths" using assms(1) by (rule list_all2_lengthD)
  have "rpc_ok e c s lg w (reqs ! i) (ths ! i)" using assms(1,2) len by (simp add: list_all2_conv_all_nth)
  from rpc_advance_ok [OF this assms(3)] have "rpc_ok e c s lg w' (reqs ! i) th" "later w w'" by simp_all
  then show ?thesis using assms(1,2) len rpc_ok_later [of e c s lg w _ _ w']
    by (auto simp: list_all2_conv_all_nth nth_list_update)
qed

lemma flight_step:
  assumes "system_step e c s lg st st'" "flight_ok e c s lg st"
  shows "flight_ok e c s lg st'"
  using assms(1)
proof cases
  case (control p q reqs ths w)
  with assms(2) show ?thesis by (auto simp: flight_ok_def intro: reachable_step)
next
  case (accept p q reqs ths w req)
  with assms(2) show ?thesis
    by (auto simp: flight_ok_def busy_def intro: reachable_step list_all2_appendI)
next
  case (work_on i ths w th w' p reqs)
  with assms(2) rpcs_update [of e c s lg w reqs ths i th w'] filter_update [of i ths busy th] show ?thesis
    by (auto simp: flight_ok_def)
next
  case (answer i ths w th w' p q reqs)
  with assms(2) rpcs_update [of e c s lg w reqs ths i th w'] filter_update [of i ths busy th] show ?thesis
    by (auto simp: flight_ok_def intro: reachable_step)
qed

lemma served_ok: "served e c s lg w0 st \<Longrightarrow> flight_ok e c s lg st"
proof (induction rule: served.induct)
  case served_start
  show ?case by (simp add: flight_ok_def listening_def [symmetric] reachable_start) (simp add: listening_def)
next
  case (served_step st st')
  then show ?case using flight_step by blast
qed

subsection \<open>Progress\<close>

text \<open>The work left in the goroutines of \<open>run\<close> and in the RPCs.\<close>

definition load :: "system \<Rightarrow> nat" where
  "load st = (case st of (p, reqs, ths, w) \<Rightarrow> work p + sum_list (map remaining ths))"

lemma step_inflight:
  assumes "step p q"
  shows "inflight q \<in> {inflight p, Suc (inflight p)} \<or> inflight p = Suc (inflight q)"
  using assms by (cases rule: step.cases) auto

lemma step_work:
  assumes "step p q" "inflight q \<noteq> Suc (inflight p)"
  shows "work q < work p \<or> q = p\<lparr>signalled := True\<rparr>"
  using assms by (cases rule: step.cases) (auto simp: work_def split: main_pc.splits)

lemma step_start: "step p q \<Longrightarrow> inflight q = Suc (inflight p) \<Longrightarrow> accepting p"
  by (cases rule: step.cases) auto

lemma remaining_update:
  assumes "i < length ths" "busy (ths ! i)" "rpc_advance e c s lg (ths ! i) w = (th, w')"
  shows "sum_list (map remaining (ths[i := th])) < sum_list (map remaining ths)"
proof -
  have "remaining th < remaining (ths ! i)" using remaining_decreases [OF assms(3)] assms(2) by (simp add: busy_def)
  moreover have "sum_list (map remaining (ths[i := th])) + remaining (ths ! i) = sum_list (map remaining ths) + remaining th"
    using sum_list_update_nat [of i "map remaining ths" "remaining th"] assms(1) by (simp add: map_update)
  ultimately show ?thesis by simp
qed

text \<open>Every step but the acceptance of an RPC and a repeated signal lowers the load.\<close>

lemma step_load:
  assumes "system_step e c s lg (p, reqs, ths, w) st'" "\<not> accepting p"
  shows "load st' < load (p, reqs, ths, w) \<or> st' = (p\<lparr>signalled := True\<rparr>, reqs, ths, w)"
  using assms(1)
proof cases
  case (control q)
  with step_work [of p q] show ?thesis by (auto simp: load_def)
next
  case (accept q req)
  with step_start [of p q] assms(2) show ?thesis by simp
next
  case (work_on i th w')
  with remaining_update [of i ths e c s lg w th w'] show ?thesis by (simp add: load_def)
next
  case (answer i th w' q)
  then have "work q < work p" using step_work [of p q] by auto
  with answer remaining_update [of i ths e c s lg w th w'] show ?thesis by (simp add: load_def)
qed


lemma rpc_progress:
  assumes "flight_ok e c s lg (p, reqs, ths, w)" "inflight p = Suc n"
  shows "\<exists>p' ths' w'. system_step e c s lg (p, reqs, ths, w) (p', reqs, ths', w')
    \<and> load (p', reqs, ths', w') < load (p, reqs, ths, w) \<and> signalled p' = signalled p \<and> go p' = go p"
proof -
  have "filter busy ths \<noteq> []" using assms by (auto simp: flight_ok_def)
  then obtain i where i: "i < length ths" "busy (ths ! i)" by (auto simp: filter_empty_conv in_set_conv_nth)
  obtain th w' where th: "rpc_advance e c s lg (ths ! i) w = (th, w')" by fastforce
  note less = remaining_update [OF i th]
  show ?thesis
  proof (cases "busy th")
    case True
    from system_step.work_on [OF i th True, of p reqs] less show ?thesis
      by (intro exI [of _ p] exI [of _ "ths[i := th]"] exI [of _ w']) (simp add: load_def)
  next
    case False
    have st: "step p (p\<lparr>inflight := n\<rparr>)" using assms(2) by (rule step.rpc_end)
    have "work (p\<lparr>inflight := n\<rparr>) < work p" using assms(2) by (simp add: work_def)
    with system_step.answer [OF i th False st] assms(2) less show ?thesis
      by (intro exI [of _ "p\<lparr>inflight := n\<rparr>"] exI [of _ "ths[i := th]"] exI [of _ w']) (simp add: load_def)
  qed
qed

lemma system_progress:
  assumes "flight_ok e c s lg (p, reqs, ths, w)" "signalled p" "\<And>r. pc p \<noteq> Returned r"
  shows "\<exists>p' ths' w'. system_step e c s lg (p, reqs, ths, w) (p', reqs, ths', w')
    \<and> load (p', reqs, ths', w') < load (p, reqs, ths, w) \<and> signalled p'"
proof -
  have "reachable p" using assms(1) by (simp add: flight_ok_def)
  from progress [OF this assms(2,3)] obtain q where q: "step p q" "work q < work p" "signalled q" by blast
  show ?thesis
  proof (cases "inflight q = inflight p")
    case True
    from system_step.control [OF q(1) this, of e c s lg reqs ths w] q(2,3) show ?thesis
      by (intro exI [of _ q] exI [of _ ths] exI [of _ w]) (simp add: load_def)
  next
    case False
    moreover have "inflight q \<noteq> Suc (inflight p)" using q(1,2) by (cases rule: step.cases) (auto simp: work_def)
    ultimately obtain n where "inflight p = Suc n" using step_inflight [OF q(1)] by auto
    from rpc_progress [OF assms(1) this] assms(2) show ?thesis by auto
  qed
qed

lemma system_finishes:
  assumes "flight_ok e c s lg (p, reqs, ths, w)" "signalled p"
  shows "\<exists>p' ths' w' r. (system_step e c s lg)\<^sup>*\<^sup>* (p, reqs, ths, w) (p', reqs, ths', w') \<and> pc p' = Returned r"
  using assms
proof (induction "load (p, reqs, ths, w)" arbitrary: p ths w rule: less_induct)
  case less
  show ?case
  proof (cases "\<exists>r. pc p = Returned r")
    case False
    then obtain p1 ths1 w1 where st: "system_step e c s lg (p, reqs, ths, w) (p1, reqs, ths1, w1)"
      "load (p1, reqs, ths1, w1) < load (p, reqs, ths, w)" "signalled p1"
      using system_progress [OF less.prems] by blast
    from less.hyps [OF st(2) flight_step [OF st(1) less.prems(1)] st(3)] st(1) show ?thesis
      by (meson converse_rtranclp_into_rtranclp)
  qed blast
qed

subsection \<open>Properties\<close>

lemma shutdown_answers:
  assumes "served e c s lg w0 (p, reqs, ths, w)" "pc p = Returned r"
  shows "case r of
      None \<Rightarrow> signalled p \<and> \<not> accepting p \<and> go p = GoDone
        \<and> list_all2 (\<lambda>req th. \<exists>resp. th = Answered resp \<and> answer_ok e c s lg w req resp) reqs ths
    | Some err \<Rightarrow> go p \<in> {ServeEnded, GoDone} \<and> (\<exists>cause. err = Wrapped ''gRPC server: '' cause [])"
proof -
  from served_ok [OF assms(1)] have ok: "reachable p" "inflight p = length (filter busy ths)"
    "list_all2 (rpc_ok e c s lg w) reqs ths" by (simp_all add: flight_ok_def)
  have "list_all2 (\<lambda>req th. \<exists>resp. th = Answered resp \<and> answer_ok e c s lg w req resp) reqs ths" if "inflight p = 0"
  proof -
    have idle: "\<forall>th \<in> set ths. \<not> busy th" using that ok(2) by (simp add: filter_empty_conv)
    show ?thesis unfolding list_all2_conv_all_nth
    proof (intro conjI allI impI)
      show len: "length reqs = length ths" using ok(3) by (rule list_all2_lengthD)
      fix i assume i: "i < length reqs"
      then have "\<not> busy (ths ! i)" using idle len by simp
      then obtain resp where "ths ! i = Answered resp" by (auto simp: busy_iff)
      with ok(3) i len show "\<exists>resp. ths ! i = Answered resp \<and> answer_ok e c s lg w (reqs ! i) resp"
        by (auto simp: list_all2_conv_all_nth)
    qed
  qed
  with reachable_ok [OF ok(1)] assms(2) show ?thesis by (auto simp: main_ok_def split: option.splits)
qed

text \<open>C7 (safety): when \<open>run\<close> returns without error, every RPC that was ever accepted has been answered, each
  by passing, by the login redirect, or by the cookie of a session that a vouched staff member owns: a graceful
  shutdown drops none.  A signal has arrived, the server is stopped and its goroutine has ended.  When \<open>run\<close>
  returns an error, \<open>Serve\<close> has returned one and it is that.\<close>

theorem graceful_shutdown_answers:
  assumes "served e c s lg w0 (p, reqs, ths, w)" "pc p = Returned r"
  shows "case r of
      None \<Rightarrow> signalled p \<and> \<not> accepting p \<and> go p = GoDone
        \<and> list_all2 (\<lambda>req th. \<exists>resp. th = Answered resp \<and> answer_ok e c s lg w req resp) reqs ths
    | Some err \<Rightarrow> go p \<in> {ServeEnded, GoDone} \<and> (\<exists>cause. err = Wrapped ''gRPC server: '' cause [])"
  using assms by (rule shutdown_answers)


text \<open>A run of the program without its RPCs' phases: the request is sent to the login at once.\<close>

abbreviation login_env :: environment where
  "login_env \<equiv> sample_env\<lparr>round_trip := (\<lambda>n rq. Inr authentik_login)\<rparr>"

lemma login_answer:
  "\<exists>resp w'. rpc_advance login_env sample_client sample_store LevelInfo (Received sample_request) sample_world = (Answered resp, w')
     \<and> resp \<noteq> okResponse"
proof -
  have "\<exists>loc cks w1. loc \<noteq> [] \<and> Check login_env sample_client ck h p u v = (Inr ([], loc, cks), w1)" for ck h p u v
    by (simp add: Check_def new_request_def http_do_def read_response_def header_get_def authentik_login_def
        sample_client_def NewClient_def sample_env_def Let_def)
  from this [of "cookie_of sample_request" "host_of sample_request" "proto_of sample_request" "uri_of sample_request"
      "noted (wired login_env sample_client sample_store LevelInfo) sample_request sample_world"]
  obtain loc cks w1 where "loc \<noteq> []" "Check login_env sample_client (cookie_of sample_request) (host_of sample_request)
    (proto_of sample_request) (uri_of sample_request) (noted (wired login_env sample_client sample_store LevelInfo)
    sample_request sample_world) = (Inr ([], loc, cks), w1)" by blast
  then show ?thesis by simp
qed

lemma served_control:
  "served e c s lg w0 (p, reqs, ths, w) \<Longrightarrow> step p q \<Longrightarrow> inflight q = inflight p \<Longrightarrow> served e c s lg w0 (q, reqs, ths, w)"
  by (blast intro: served_step system_step.control)

lemma served_serving: "served e c s lg w0 (serving, [], [], w0)"
proof -
  have "served e c s lg w0 (listening\<lparr>go := Ready, messages := [''gRPC server ready'']\<rparr>, [], [], w0)"
    using served_control [OF served_start step.announce] by (simp add: listening_def)
  from served_control [OF this step.serve] show ?thesis by (simp add: listening_def)
qed

lemma served_received: "served e c s lg w0 (serving\<lparr>inflight := 1\<rparr>, [req], [Received req], w0)"
proof -
  have st: "step serving (serving\<lparr>inflight := 1\<rparr>)" using step.rpc_start [of serving] by (simp add: listening_def)
  from served_step [OF served_serving system_step.accept [OF st]] show ?thesis by (simp add: listening_def)
qed

text \<open>A signal that arrives while the server serves and no RPC is in flight.\<close>

lemma quiet_shutdown:
  assumes "served e c s lg w0 (serving, reqs, ths, w)"
  shows "\<exists>p. served e c s lg w0 (p, reqs, ths, w) \<and> pc p = Returned None"
proof -
  let ?served = "\<lambda>p. served e c s lg w0 (p, reqs, ths, w)"
  define p where "p = serving\<lparr>signalled := True, pc := Stopping, messages := [''gRPC server ready'', ''shutdown signal received'']\<rparr>"
  from served_control [OF assms step.signal] have "?served (serving\<lparr>signalled := True\<rparr>)" by simp
  from served_control [OF this step.select_signal] have "?served p" by (simp add: p_def listening_def)
  from served_control [OF this step.stop_accepting] have "?served (p\<lparr>pc := Draining, accepting := False\<rparr>)"
    by (simp add: p_def)
  from served_control [OF this step.graceful_stop] have "?served (p\<lparr>pc := Receiving, accepting := False\<rparr>)"
    by (simp add: p_def listening_def)
  from served_control [OF this step.serve_nil] have "?served (p\<lparr>pc := Receiving, accepting := False, go := ServeEnded\<rparr>)"
    by (simp add: p_def)
  from served_control [OF this step.close_channel]
  have "?served (p\<lparr>pc := Receiving, accepting := False, go := GoDone, closed := True\<rparr>)" by (simp add: p_def)
  from served_control [OF this step.receive_closed]
  have "?served (p\<lparr>pc := Returned None, accepting := False, go := GoDone, closed := True\<rparr>)"
    by (simp add: p_def listening_def)
  moreover have "pc (p\<lparr>pc := Returned None, accepting := False, go := GoDone, closed := True\<rparr>) = Returned None"
    by (simp add: p_def)
  ultimately show ?thesis by blast
qed

lemma login_run:
  "\<exists>p resp w. served login_env sample_client sample_store LevelInfo sample_world (p, [sample_request], [Answered resp], w)
     \<and> pc p = Returned None \<and> resp \<noteq> okResponse"
proof -
  let ?served = "served login_env sample_client sample_store LevelInfo sample_world"
  obtain resp w where a: "rpc_advance login_env sample_client sample_store LevelInfo (Received sample_request) sample_world
    = (Answered resp, w)" "resp \<noteq> okResponse" using login_answer by blast
  note 2 = served_received [of login_env sample_client sample_store LevelInfo sample_world sample_request]
  have st: "step (serving\<lparr>inflight := 1\<rparr>) serving" using step.rpc_end [of "serving\<lparr>inflight := 1\<rparr>"] by (simp add: listening_def)
  have "system_step login_env sample_client sample_store LevelInfo
      (serving\<lparr>inflight := 1\<rparr>, [sample_request], [Received sample_request], sample_world)
      (serving, [sample_request], [Received sample_request][0 := Answered resp], w)"
    by (rule system_step.answer [OF _ _ _ _ st]) (use a in \<open>simp_all add: busy_def listening_def del: rpc_advance.simps\<close>)
  from served_step [OF 2 this] have 3: "?served (serving, [sample_request], [Answered resp], w)" by simp
  from quiet_shutdown [OF 3] a(2) show ?thesis by blast
qed

lemma graceful_shutdown_answers_witness:
  "\<exists>p resp w. served login_env sample_client sample_store LevelInfo sample_world (p, [sample_request], [Answered resp], w)
     \<and> pc p = Returned None \<and> answer_ok login_env sample_client sample_store LevelInfo w sample_request resp"
proof -
  obtain p resp w where run: "served login_env sample_client sample_store LevelInfo sample_world (p, [sample_request], [Answered resp], w)"
    "pc p = Returned None" using login_run by blast
  from graceful_shutdown_answers [OF this] run show ?thesis by auto
qed

text \<open>C20 (liveness): once the signal has arrived \<open>run\<close> can always return without a further request, whatever
  the RPCs are doing: the goroutine's send never waits for a reader and the main goroutine never waits for a
  channel nobody will close.  When the server has stopped accepting it must: every step finishes some of the work
  left, or is another signal, and until \<open>run\<close> has returned there is a step.\<close>

theorem shutdown_drains:
  assumes "served e c s lg w0 (p, reqs, ths, w)" "signalled p"
  shows "(\<exists>p' ths' w' r. (system_step e c s lg)\<^sup>*\<^sup>* (p, reqs, ths, w) (p', reqs, ths', w') \<and> pc p' = Returned r)
    \<and> (\<not> accepting p \<longrightarrow> (\<forall>st'. system_step e c s lg (p, reqs, ths, w) st' \<longrightarrow>
         load st' < load (p, reqs, ths, w) \<or> st' = (p, reqs, ths, w)))
    \<and> ((\<forall>r. pc p \<noteq> Returned r) \<longrightarrow> (\<exists>st'. system_step e c s lg (p, reqs, ths, w) st' \<and> load st' < load (p, reqs, ths, w)))"
proof (intro conjI impI allI)
  note ok = served_ok [OF assms(1)]
  show "\<exists>p' ths' w' r. (system_step e c s lg)\<^sup>*\<^sup>* (p, reqs, ths, w) (p', reqs, ths', w') \<and> pc p' = Returned r"
    using ok assms(2) by (rule system_finishes)
  have "p\<lparr>signalled := True\<rparr> = p" using assms(2) by simp
  then show "load st' < load (p, reqs, ths, w) \<or> st' = (p, reqs, ths, w)"
    if "\<not> accepting p" "system_step e c s lg (p, reqs, ths, w) st'" for st' using step_load [OF that(2,1)] by simp
  show "\<exists>st'. system_step e c s lg (p, reqs, ths, w) st' \<and> load st' < load (p, reqs, ths, w)" if "\<forall>r. pc p \<noteq> Returned r"
    using system_progress [OF ok assms(2)] that by blast
qed


lemma shutdown_drains_witness:
  "\<exists>p ths w r. (system_step sample_env sample_client sample_store LevelInfo)\<^sup>*\<^sup>*
     (serving\<lparr>inflight := 1, signalled := True\<rparr>, [sample_request], [Received sample_request], sample_world)
     (p, [sample_request], ths, w) \<and> pc p = Returned r"
proof -
  have "served sample_env sample_client sample_store LevelInfo sample_world
    (serving\<lparr>inflight := 1, signalled := True\<rparr>, [sample_request], [Received sample_request], sample_world)"
    using served_control [OF served_received step.signal] by simp
  from shutdown_drains [OF this] show ?thesis by auto
qed

end
