(* ===== verification/Program.thy ===== *)
theory Program
  imports Serving
begin

text \<open>
  The life of the process, from \<open>main\<close> to its exit status: start-up (\<open>Startup\<close>), the serving system
  (\<open>Serving\<close>) wired from what start-up has built, and the end of \<open>run\<close>, which \<open>main\<close> turns into the
  status.
\<close>

definition rn_client :: "running \<Rightarrow> client" where
  "rn_client rn = NewClient (AuthentikForwardAuthURL (rn_config rn))"

definition rn_logger :: "running \<Rightarrow> logger" where
  "rn_logger rn = log_level_of (LogLevel (rn_config rn))"

datatype program =
    Boot world
  | Up running system
  | Down nat world

inductive program_step :: "platform \<Rightarrow> environment \<Rightarrow> variables \<Rightarrow> program \<Rightarrow> program \<Rightarrow> bool"
  for pf e vs where
  boot_failed: "main_start pf e vs w = (Inl x, w') \<Longrightarrow> program_step pf e vs (Boot w) (Down (exit_status x) w')"
| booted: "main_start pf e vs w = (Inr rn, w') \<Longrightarrow> program_step pf e vs (Boot w) (Up rn (listening, [], [], w'))"
| serves: "system_step e (rn_client rn) (rn_store rn) (rn_logger rn) st st' \<Longrightarrow> program_step pf e vs (Up rn st) (Up rn st')"
| ended: "pc p = Returned None \<Longrightarrow> program_step pf e vs (Up rn (p, reqs, ths, w)) (Down 0 w)"
| failed: "pc p = Returned (Some err) \<Longrightarrow>
    program_step pf e vs (Up rn (p, reqs, ths, w)) (Down (exit_status (Fatal err)) w)"

inductive_cases program_step_boot: "program_step pf e vs (Boot w) pr"
inductive_cases program_step_up: "program_step pf e vs (Up rn st) pr"
inductive_cases program_step_down: "program_step pf e vs (Down n w) pr"

subsection \<open>The RPCs of the serving system\<close>

text \<open>The RPCs accepted so far have run as if all of them had been there from the start: one that
  has not arrived takes no step.\<close>

lemma rpc_step_later:
  assumes "rpc_step e c s lg (ths, w) (ths', w')"
  shows "rpc_step e c s lg (ths @ [th], w) (ths' @ [th], w')"
proof -
  from assms obtain i p where i: "i < length ths" "0 < remaining (ths ! i)" "rpc_advance e c s lg (ths ! i) w = (p, w')"
    "ths' = ths[i := p]" by (rule rpc_step_elim)
  then have "rpc_step e c s lg (ths @ [th], w) ((ths @ [th])[i := p], w')"
    by (intro run_rpc) (simp_all add: nth_append)
  with i show ?thesis by (simp add: list_update_append)
qed

lemma rpc_steps_later:
  "(rpc_step e c s lg)\<^sup>*\<^sup>* (ths, w) (ths', w') \<Longrightarrow> (rpc_step e c s lg)\<^sup>*\<^sup>* (ths @ [th], w) (ths' @ [th], w')"
proof (induction rule: rtranclp_induct2)
  case (step ths1 w1 ths2 w2)
  from step.IH rpc_step_later [OF step.hyps(2)] show ?case by (rule rtranclp.rtrancl_into_rtrancl)
qed simp

lemma served_rpcs:
  "served e c s lg w0 (p, reqs, ths, w) \<Longrightarrow> (rpc_step e c s lg)\<^sup>*\<^sup>* (map Received reqs, w0) (ths, w)"
proof (induction "(p, reqs, ths, w)" arbitrary: p reqs ths w rule: served.induct)
  case served_start
  then show ?case by simp
next
  case (served_step st)
  from served_step.hyps(3) show ?case
  proof cases
    case (control p)
    with served_step.hyps(2) show ?thesis by simp
  next
    case (accept p reqs' ths' req)
    from served_step.hyps(2) [OF accept(1)] have "(rpc_step e c s lg)\<^sup>*\<^sup>* (map Received reqs', w0) (ths', w)" .
    from rpc_steps_later [OF this, of "Received req"] accept show ?thesis by simp
  next
    case (work_on i ths' v th)
    from served_step.hyps(2) [OF work_on(1)] have "(rpc_step e c s lg)\<^sup>*\<^sup>* (map Received reqs, w0) (ths', v)" .
    moreover have "rpc_step e c s lg (ths', v) (ths'[i := th], w)"
      using work_on by (intro run_rpc) (simp_all add: busy_def)
    ultimately show ?thesis using work_on by simp
  next
    case (answer i ths' v th p)
    from served_step.hyps(2) [OF answer(1)] have "(rpc_step e c s lg)\<^sup>*\<^sup>* (map Received reqs, w0) (ths', v)" .
    moreover have "rpc_step e c s lg (ths', v) (ths'[i := th], w)"
      using answer by (intro run_rpc) (simp_all add: busy_def)
    ultimately show ?thesis using answer by simp
  qed
qed

subsection \<open>What a state of the process says about its past\<close>

fun life_ok :: "platform \<Rightarrow> environment \<Rightarrow> variables \<Rightarrow> world \<Rightarrow> program \<Rightarrow> bool" where
  "life_ok pf e vs w0 (Boot w) \<longleftrightarrow> w = w0"
| "life_ok pf e vs w0 (Up rn st) \<longleftrightarrow> (\<exists>w1. main_start pf e vs w0 = (Inr rn, w1)
     \<and> served e (rn_client rn) (rn_store rn) (rn_logger rn) w1 st)"
| "life_ok pf e vs w0 (Down n w) \<longleftrightarrow> (\<exists>x. main_start pf e vs w0 = (Inl x, w) \<and> n = exit_status x)
     \<or> (\<exists>rn w1 p reqs ths r. main_start pf e vs w0 = (Inr rn, w1)
          \<and> served e (rn_client rn) (rn_store rn) (rn_logger rn) w1 (p, reqs, ths, w)
          \<and> pc p = Returned r \<and> n = (if r = None then 0 else 1))"

lemma life_step: "program_step pf e vs pr pr' \<Longrightarrow> life_ok pf e vs w0 pr \<Longrightarrow> life_ok pf e vs w0 pr'"
proof (induction rule: program_step.induct)
  case (booted w rn w')
  then show ?case by (simp add: served_start)
next
  case (serves rn st st')
  then show ?case by (auto intro: served_step)
next
  case (ended p rn reqs ths w)
  then show ?case by fastforce
next
  case (failed p err rn reqs ths w)
  then show ?case by fastforce
qed simp

lemma life: "(program_step pf e vs)\<^sup>*\<^sup>* (Boot w0) pr \<Longrightarrow> life_ok pf e vs w0 pr"
proof (induction rule: rtranclp_induct)
  case (step pr pr')
  from step.hyps(2) step.IH show ?case by (rule life_step)
qed simp

text \<open>What the served RPCs have done to the tables.\<close>

lemma served_tables:
  assumes "served e c s lg w1 (p, reqs, ths, w)"
  shows "users (db w) = users (db w1)"
    and "\<exists>new. registry (db w) = registry (db w1) @ new \<and> length new \<le> length reqs
      \<and> (\<forall>g \<in> set new. \<exists>req \<in> set reqs. earned e c (users (db w1)) req g)"
proof -
  note run = served_rpcs [OF assms]
  have "list_all2 (rpc_ok e c s lg w1) reqs (map Received reqs)" by (simp add: list_all2_conv_all_nth)
  from system_safe [OF run this] show "users (db w) = users (db w1)" by (simp add: later_def grows_def)
  from run show "\<exists>new. registry (db w) = registry (db w1) @ new \<and> length new \<le> length reqs
      \<and> (\<forall>g \<in> set new. \<exists>req \<in> set reqs. earned e c (users (db w1)) req g)" by (rule rpcs_new_grants)
qed

subsection \<open>Properties\<close>

text \<open>C6 (safety): the exit status of the process tells what it has done.  Without a successful start-up
  it is 2 when a required variable is missing and 1 otherwise, and nothing has been written or asked.  After one it is
  0 or 1: 0 only after a signal, with the server stopped and every accepted RPC answered, by passing, the login
  redirect or the cookie of a vouched staff member's session; 1 only when \<open>Serve\<close> has
  returned an error, which is the one \<open>run\<close> returns.  Either way the server that was
  registered is the one wired from the configuration and the secret of the settings table, no user has changed,
  and the sessions are those from before the start with at most one more per RPC, each for an active
  member Authentik named for one of the requests.\<close>

theorem program_exit:
  assumes "(program_step pf e vs)\<^sup>*\<^sup>* (Boot w0) (Down n w)"
  shows "case main_start pf e vs w0 of
      (Inl x, w1) \<Rightarrow> w = w1 \<and> db w = db w0 \<and> http_sent w = http_sent w0
        \<and> n = (if getenv vs ''DB_USER'' = [] \<or> getenv vs ''DB_PASSWORD'' = [] \<or> getenv vs ''AUTHENTIK_FORWARD_AUTH_URL'' = []
            then 2 else 1)
    | (Inr rn, w1) \<Rightarrow> (\<exists>p reqs ths setting raw new.
        served e (rn_client rn) (rn_store rn) (rn_logger rn) w1 (p, reqs, ths, w)
        \<and> (n = 0 \<and> signalled p \<and> \<not> accepting p
              \<and> list_all2 (\<lambda>req th. \<exists>resp. th = Answered resp
                  \<and> answer_ok e (rn_client rn) (rn_store rn) (rn_logger rn) w req resp) reqs ths
            \<or> n = 1 \<and> (\<exists>cause. pc p = Returned (Some (Wrapped ''gRPC server: '' cause []))))
        \<and> rn_services rn = [Authorization (wired e (rn_client rn) (rn_store rn) (rn_logger rn)), Reflection, Health [[] \<mapsto> SERVING]]
        \<and> Load vs = Return (Inr (rn_config rn)) \<and> sessionMaxAge (rn_store rn) = SessionMaxAgeDays (rn_config rn)
        \<and> 0 < sint (sessionMaxAge (rn_store rn))
        \<and> setting \<in> set (settings (db w0)) \<and> text_eq e (st_key setting) ''admin_session_secret''
        \<and> st_value setting = Some raw \<and> dbHash (rn_store rn) = fst (unwrap_secret raw) \<and> dbHash (rn_store rn) \<noteq> []
        \<and> users (db w) = users (db w0) \<and> registry (db w) = registry (db w0) @ new \<and> length new \<le> length reqs
        \<and> (\<forall>g \<in> set new. \<exists>req \<in> set reqs. earned e (rn_client rn) (users (db w0)) req g))"
proof -
  from life [OF assms] have ok: "life_ok pf e vs w0 (Down n w)" .
  show ?thesis
  proof (cases "main_start pf e vs w0")
    case (Pair out w1)
    show ?thesis
    proof (cases out)
      case (Inl x)
      with Pair ok start_outcome [of pf e vs w0] show ?thesis by simp
    next
      case (Inr rn)
      with Pair ok obtain p reqs ths r where up: "served e (rn_client rn) (rn_store rn) (rn_logger rn) w1 (p, reqs, ths, w)"
        "pc p = Returned r" "n = (if r = None then 0 else 1)" by auto
      have db: "db w1 = db w0" using Pair start_outcome [of pf e vs w0] by simp
      from ready_wired [of pf e vs w0 rn] Pair Inr obtain setting raw where wired:
        "rn_services rn = [Authorization (wired e (rn_client rn) (rn_store rn) (rn_logger rn)), Reflection, Health [[] \<mapsto> SERVING]]"
        "Load vs = Return (Inr (rn_config rn))" "sessionMaxAge (rn_store rn) = SessionMaxAgeDays (rn_config rn)"
        "0 < sint (sessionMaxAge (rn_store rn))"
        "setting \<in> set (settings (db w0))" "text_eq e (st_key setting) ''admin_session_secret''"
        "st_value setting = Some raw" "dbHash (rn_store rn) = fst (unwrap_secret raw)" "dbHash (rn_store rn) \<noteq> []"
        by (auto simp: rn_client_def rn_logger_def)
      from served_tables [OF up(1)] db obtain new where "users (db w) = users (db w0)"
        "registry (db w) = registry (db w0) @ new" "length new \<le> length reqs"
        "\<forall>g \<in> set new. \<exists>req \<in> set reqs. earned e (rn_client rn) (users (db w0)) req g" by auto
      moreover have "n = 0 \<and> signalled p \<and> \<not> accepting p
              \<and> list_all2 (\<lambda>req th. \<exists>resp. th = Answered resp
                  \<and> answer_ok e (rn_client rn) (rn_store rn) (rn_logger rn) w req resp) reqs ths
            \<or> n = 1 \<and> (\<exists>cause. pc p = Returned (Some (Wrapped ''gRPC server: '' cause [])))"
        using shutdown_answers [OF up(1,2)] up(2,3) by (cases r) auto
      ultimately show ?thesis using up(1) wired unfolding Pair Inr prod.case sum.case by blast
    qed
  qed
qed

lemma served_steps: "served e c s lg w0 st \<Longrightarrow> (system_step e c s lg)\<^sup>*\<^sup>* (listening, [], [], w0) st"
  by (induction rule: served.induct) (auto intro: rtranclp.rtrancl_into_rtrancl)

lemma program_serves:
  "(system_step e (rn_client rn) (rn_store rn) (rn_logger rn))\<^sup>*\<^sup>* st st' \<Longrightarrow> (program_step pf e vs)\<^sup>*\<^sup>* (Up rn st) (Up rn st')"
  by (induction rule: rtranclp_induct) (auto intro: rtranclp.rtrancl_into_rtrancl serves)

lemma program_exit_witness:
  "\<exists>w. (program_step sample_platform sample_env sample_vars)\<^sup>*\<^sup>* (Boot sample_world) (Down 0 w)
     \<and> registry (db w) = registry (db sample_world)"
proof -
  obtain rn w1 where start: "main_start sample_platform sample_env sample_vars sample_world = (Inr rn, w1)"
    using sample_start by (metis prod.collapse)
  let ?c = "rn_client rn" and ?s = "rn_store rn" and ?lg = "rn_logger rn"
  obtain p where p: "served sample_env ?c ?s ?lg w1 (p, [], [], w1)" "pc p = Returned None"
    using quiet_shutdown [OF served_serving] by blast
  have "(program_step sample_platform sample_env sample_vars)\<^sup>*\<^sup>* (Boot sample_world) (Up rn (p, [], [], w1))"
    using booted [OF start] program_serves [OF served_steps [OF p(1)]] by (meson converse_rtranclp_into_rtranclp)
  then have run: "(program_step sample_platform sample_env sample_vars)\<^sup>*\<^sup>* (Boot sample_world) (Down 0 w1)"
    using ended [OF p(2)] by (meson rtranclp.rtrancl_into_rtrancl)
  from program_exit [OF run] have "registry (db w1) = registry (db sample_world)"
    using start_outcome [of sample_platform sample_env sample_vars sample_world] by (simp add: start)
  with run show ?thesis by blast
qed

subsection \<open>The end of the process\<close>

text \<open>While \<open>Serve\<close> runs, a signal leads to the point where \<open>GracefulStop\<close> has returned.\<close>

lemma serving_progress:
  assumes "flight_ok e c s lg (p, reqs, ths, w)" "signalled p" "go p = Serving" "pc p \<noteq> Receiving"
  shows "\<exists>p' ths' w'. system_step e c s lg (p, reqs, ths, w) (p', reqs, ths', w')
    \<and> load (p', reqs, ths', w') < load (p, reqs, ths, w) \<and> signalled p' \<and> go p' = Serving"
proof -
  have move: ?thesis if "step p q" "inflight q = inflight p" "work q < work p" "signalled q" "go q = Serving" for q
    using system_step.control [OF that(1,2), of e c s lg reqs ths w] that(3-5)
    by (intro exI [of _ q] exI [of _ ths] exI [of _ w]) (simp add: load_def)
  have ok: "main_ok p" using assms(1) reachable_ok by (auto simp: flight_ok_def)
  show ?thesis
  proof (cases "pc p")
    case Select
    from move [OF step.select_signal [OF this assms(2)]] Select assms(2,3) show ?thesis by (simp add: work_def)
  next
    case Stopping
    from move [OF step.stop_accepting [OF this]] Stopping assms(2,3) show ?thesis by (simp add: work_def)
  next
    case Draining
    show ?thesis
    proof (cases "inflight p")
      case 0
      from move [OF step.graceful_stop [OF Draining 0]] Draining assms(2,3) show ?thesis by (simp add: work_def)
    next
      case (Suc n)
      from rpc_progress [OF assms(1) Suc] assms(2,3) show ?thesis by auto
    qed
  next
    case Receiving
    with assms(4) show ?thesis by simp
  next
    case (Returned r)
    with ok assms(3) show ?thesis by (cases r) (auto simp: main_ok_def)
  qed
qed

lemma serving_stops:
  assumes "flight_ok e c s lg (p, reqs, ths, w)" "signalled p" "go p = Serving"
  shows "\<exists>p' ths' w'. (system_step e c s lg)\<^sup>*\<^sup>* (p, reqs, ths, w) (p', reqs, ths', w')
    \<and> flight_ok e c s lg (p', reqs, ths', w') \<and> pc p' = Receiving \<and> go p' = Serving"
  using assms
proof (induction "load (p, reqs, ths, w)" arbitrary: p ths w rule: less_induct)
  case less
  show ?case
  proof (cases "pc p = Receiving")
    case True
    with less.prems show ?thesis by blast
  next
    case False
    then obtain p1 ths1 w1 where st: "system_step e c s lg (p, reqs, ths, w) (p1, reqs, ths1, w1)"
      "load (p1, reqs, ths1, w1) < load (p, reqs, ths, w)" "signalled p1" "go p1 = Serving"
      using serving_progress [OF less.prems] by blast
    from less.hyps [OF st(2) flight_step [OF st(1) less.prems(1)] st(3,4)] st(1) show ?thesis
      by (meson converse_rtranclp_into_rtranclp)
  qed
qed

text \<open>From there \<open>Serve\<close> returns nil, the channel is closed and \<open>run\<close> returns nil.\<close>

lemma stopped_returns:
  assumes "flight_ok e c s lg (p, reqs, ths, w)" "pc p = Receiving" "go p = Serving"
  shows "\<exists>q. (system_step e c s lg)\<^sup>*\<^sup>* (p, reqs, ths, w) (q, reqs, ths, w) \<and> pc q = Returned None"
proof -
  have ok: "main_ok p" "channel_ok p" using assms(1) reachable_ok by (auto simp: flight_ok_def)
  then have idle: "\<not> accepting p" "errCh p = None" using assms(2,3) by (simp_all add: main_ok_def channel_ok_def)
  let ?q1 = "p\<lparr>go := ServeEnded\<rparr>" and ?q2 = "p\<lparr>go := GoDone, closed := True\<rparr>"
  have ctl: "step a b \<Longrightarrow> inflight b = inflight a \<Longrightarrow> system_step e c s lg (a, reqs, ths, w) (b, reqs, ths, w)" for a b
    by (rule system_step.control)
  have 1: "step p ?q1" using assms(3) idle(1) by (rule step.serve_nil)
  have 2: "step ?q1 ?q2" using step.close_channel [of ?q1] by simp
  have 3: "step ?q2 (?q2\<lparr>pc := Returned None\<rparr>)" using assms(2) idle(2) by (intro step.receive_closed) simp_all
  have "(system_step e c s lg)\<^sup>*\<^sup>* (p, reqs, ths, w) (?q2\<lparr>pc := Returned None\<rparr>, reqs, ths, w)"
    using ctl [OF 1] ctl [OF 2] ctl [OF 3] by simp
  then show ?thesis by (rule exI [where x = "?q2\<lparr>pc := Returned None\<rparr>", OF conjI]) simp
qed

lemma signal_first: "(system_step e c s lg) (p, reqs, ths, w) (p\<lparr>signalled := True\<rparr>, reqs, ths, w)"
  by (rule system_step.control [OF step.signal]) simp

lemma up_ends:
  assumes "flight_ok e (rn_client rn) (rn_store rn) (rn_logger rn) (p, reqs, ths, w)"
  shows "\<exists>n w'. (program_step pf e vs)\<^sup>*\<^sup>* (Up rn (p, reqs, ths, w)) (Down n w')"
proof -
  note st = signal_first [of e "rn_client rn" "rn_store rn" "rn_logger rn" p reqs ths w]
  from system_finishes [OF flight_step [OF st assms]] obtain p' ths' w' r where
    "(system_step e (rn_client rn) (rn_store rn) (rn_logger rn))\<^sup>*\<^sup>* (p\<lparr>signalled := True\<rparr>, reqs, ths, w) (p', reqs, ths', w')"
    and r: "pc p' = Returned r" by auto
  with st have run: "(program_step pf e vs)\<^sup>*\<^sup>* (Up rn (p, reqs, ths, w)) (Up rn (p', reqs, ths', w'))"
    by (intro program_serves) (rule converse_rtranclp_into_rtranclp)
  from r have "\<exists>n. program_step pf e vs (Up rn (p', reqs, ths', w')) (Down n w')"
    by (cases r) (blast intro: ended failed)+
  with run show ?thesis by (blast intro: rtranclp.rtrancl_into_rtrancl)
qed

lemma serving_ends:
  assumes "flight_ok e (rn_client rn) (rn_store rn) (rn_logger rn) (p, reqs, ths, w)" "go p = Serving"
  shows "\<exists>w'. (program_step pf e vs)\<^sup>*\<^sup>* (Up rn (p, reqs, ths, w)) (Down 0 w')"
proof -
  let ?step = "system_step e (rn_client rn) (rn_store rn) (rn_logger rn)"
  note st = signal_first [of e "rn_client rn" "rn_store rn" "rn_logger rn" p reqs ths w]
  from serving_stops [OF flight_step [OF st assms(1)]] assms(2) obtain p' ths' w' where
    a: "?step\<^sup>*\<^sup>* (p\<lparr>signalled := True\<rparr>, reqs, ths, w) (p', reqs, ths', w')"
    and b: "flight_ok e (rn_client rn) (rn_store rn) (rn_logger rn) (p', reqs, ths', w')" "pc p' = Receiving" "go p' = Serving"
    by auto
  from stopped_returns [OF b] obtain q where q: "?step\<^sup>*\<^sup>* (p', reqs, ths', w') (q, reqs, ths', w')" "pc q = Returned None" by blast
  from st a q(1) have "?step\<^sup>*\<^sup>* (p, reqs, ths, w) (q, reqs, ths', w')" by (meson converse_rtranclp_into_rtranclp rtranclp_trans)
  from program_serves [OF this] ended [OF q(2)] show ?thesis by (blast intro: rtranclp.rtrancl_into_rtrancl)
qed

text \<open>C21 (liveness): the process never hangs for good.  Whatever has happened since it was started, it can still
  exit: no RPC, channel or goroutine can block it for ever; while \<open>Serve\<close> runs, whatever the RPCs are doing, it can exit with
  status 0; and when it has exited it does nothing more.\<close>

theorem program_ends:
  assumes "(program_step pf e vs)\<^sup>*\<^sup>* (Boot w0) pr"
  shows "(\<exists>n w. (program_step pf e vs)\<^sup>*\<^sup>* pr (Down n w))
    \<and> (case pr of
        Boot w \<Rightarrow> \<exists>pr'. program_step pf e vs pr pr'
      | Up rn (p, reqs, ths, w) \<Rightarrow> go p = Serving \<longrightarrow> (\<exists>w'. (program_step pf e vs)\<^sup>*\<^sup>* pr (Down 0 w'))
      | Down n w \<Rightarrow> \<forall>pr'. \<not> program_step pf e vs pr pr')"
proof (cases pr)
  case (Boot w)
  obtain out w1 where start: "main_start pf e vs w = (out, w1)" by fastforce
  show ?thesis
  proof (cases out)
    case (Inl x)
    with start boot_failed [of pf e vs w x w1] Boot show ?thesis by auto
  next
    case (Inr rn)
    with start have up: "program_step pf e vs (Boot w) (Up rn (listening, [], [], w1))" by (simp add: booted)
    have "flight_ok e (rn_client rn) (rn_store rn) (rn_logger rn) (listening, [], [], w1)"
      by (rule served_ok [OF served_start])
    from up_ends [OF this, of pf vs] up Boot show ?thesis by (auto dest: converse_rtranclp_into_rtranclp)
  qed
next
  case (Up rn st)
  obtain p reqs ths w where st: "st = (p, reqs, ths, w)" by (cases st)
  from life [OF assms] have "flight_ok e (rn_client rn) (rn_store rn) (rn_logger rn) (p, reqs, ths, w)"
    using served_ok by (auto simp: Up st)
  from up_ends [OF this] serving_ends [OF this] show ?thesis by (auto simp: Up st)
next
  case (Down n w)
  then show ?thesis by (auto elim: program_step_down)
qed

lemma program_ends_witness:
  "\<exists>rn w w'. (program_step sample_platform sample_env sample_vars)\<^sup>*\<^sup>* (Boot sample_world)
       (Up rn (serving\<lparr>inflight := 1\<rparr>, [sample_request], [Received sample_request], w))
    \<and> (program_step sample_platform sample_env sample_vars)\<^sup>*\<^sup>*
       (Up rn (serving\<lparr>inflight := 1\<rparr>, [sample_request], [Received sample_request], w)) (Down 0 w')"
proof -
  obtain rn w1 where start: "main_start sample_platform sample_env sample_vars sample_world = (Inr rn, w1)"
    using sample_start by (metis prod.collapse)
  have run: "(program_step sample_platform sample_env sample_vars)\<^sup>*\<^sup>* (Boot sample_world)
      (Up rn (serving\<lparr>inflight := 1\<rparr>, [sample_request], [Received sample_request], w1))"
    using booted [OF start] program_serves [OF served_steps [OF served_received]] by (meson converse_rtranclp_into_rtranclp)
  from program_ends [OF run] run show ?thesis by (simp add: listening_def) blast
qed

end
