(* ===== verification/Pool.thy ===== *)
theory Pool
  imports Program
begin

text \<open>
  What RPCs wait for.  \<open>mariadb.Connect\<close> limits the pool that both adapters share to \<open>MaxOpenConns\<close>
  connections, so a statement may have to wait until another RPC gives a connection back; and the
  answer of Authentik may never come, in which case the time limit of the HTTP client ends the wait.
  \<open>pool_step\<close> is \<open>rpc_step\<close> of \<open>Rpcs\<close> with both waits: an RPC takes a connection before a phase that runs
  a statement, \<open>QueryRowContext(...).Scan\<close> and \<open>ExecContext\<close> give it back with their result, and no phase ends
  while the endpoint is silent and no time limit is set.  As in \<open>database/sql\<close>, a limit of zero or
  less is none, and as in \<open>net/http\<close> a time limit of zero or less is none.
\<close>

record job =
  jb_rpc :: rpc
  jb_conns :: nat

text \<open>The phases that run a statement.\<close>

fun queries :: "rpc \<Rightarrow> bool" where
  "queries (InService req em (Verify em')) \<longleftrightarrow> True"
| "queries (InService req em (LookUp em' usr)) \<longleftrightarrow> True"
| "queries (InService req em (Refresh em' usr row)) \<longleftrightarrow> True"
| "queries (InService req em (Insert em' usr)) \<longleftrightarrow> True"
| "queries _ \<longleftrightarrow> False"

definition in_use :: "job list \<Rightarrow> nat" where
  "in_use js = sum_list (map jb_conns js)"

definition has_free :: "db_pool \<Rightarrow> job list \<Rightarrow> bool" where
  "has_free pool js \<longleftrightarrow> sint (MaxOpenConns pool) \<le> 0 \<or> int (in_use js) < sint (MaxOpenConns pool)"

text \<open>\<open>silent k\<close>: the endpoint never answers the request number \<open>k\<close>; with a time limit the
  result of that request is the client's error.\<close>

definition limited :: "(nat \<Rightarrow> bool) \<Rightarrow> environment \<Rightarrow> environment" where
  "limited silent e = e\<lparr>round_trip := (\<lambda>k rq. if silent k
     then Inl ''context deadline exceeded (Client.Timeout exceeded while awaiting headers)'' else round_trip e k rq)\<rparr>"

definition comes_back :: "(nat \<Rightarrow> bool) \<Rightarrow> environment \<Rightarrow> client \<Rightarrow> rpc \<Rightarrow> world \<Rightarrow> bool" where
  "comes_back silent e c th w \<longleftrightarrow> (case th of
      Received req \<Rightarrow> endpointURL c = [] \<or> url_error e (endpointURL c) \<noteq> None
        \<or> 0 < sint (Timeout c) \<or> \<not> silent (length (http_sent w))
    | _ \<Rightarrow> True)"

inductive pool_step :: "db_pool \<Rightarrow> (nat \<Rightarrow> bool) \<Rightarrow> environment \<Rightarrow> client \<Rightarrow> mariadb_store \<Rightarrow> logger
    \<Rightarrow> job list \<times> world \<Rightarrow> job list \<times> world \<Rightarrow> bool"
  for pool silent e c s lg where
  take_conn: "i < length js \<Longrightarrow> queries (jb_rpc (js ! i)) \<Longrightarrow> jb_conns (js ! i) = 0 \<Longrightarrow> has_free pool js \<Longrightarrow>
    pool_step pool silent e c s lg (js, w) (js[i := (js ! i)\<lparr>jb_conns := 1\<rparr>], w)"
| run_phase: "i < length js \<Longrightarrow> 0 < remaining (jb_rpc (js ! i)) \<Longrightarrow>
    (queries (jb_rpc (js ! i)) \<longrightarrow> 0 < jb_conns (js ! i)) \<Longrightarrow> comes_back silent e c (jb_rpc (js ! i)) w \<Longrightarrow>
    rpc_advance (limited silent e) c s lg (jb_rpc (js ! i)) w = (th, w') \<Longrightarrow>
    pool_step pool silent e c s lg (js, w) (js[i := \<lparr>jb_rpc = th, jb_conns = 0\<rparr>], w')"

inductive_cases pool_step_elim: "pool_step pool silent e c s lg (js, w) (js', w')"

definition accepted :: "check_request option \<Rightarrow> job" where
  "accepted req = \<lparr>jb_rpc = Received req, jb_conns = 0\<rparr>"

subsection \<open>The invariant\<close>

text \<open>Only an RPC before a statement holds a connection, and only one; and the pool's limit is kept.\<close>

definition job_ok :: "job \<Rightarrow> bool" where
  "job_ok j \<longleftrightarrow> jb_conns j \<le> (if queries (jb_rpc j) then 1 else 0)"

definition conns_ok :: "db_pool \<Rightarrow> job list \<Rightarrow> bool" where
  "conns_ok pool js \<longleftrightarrow> list_all job_ok js
     \<and> (0 < sint (MaxOpenConns pool) \<longrightarrow> int (in_use js) \<le> sint (MaxOpenConns pool))"

lemma in_use_update:
  "i < length js \<Longrightarrow> in_use (js[i := j]) + jb_conns (js ! i) = in_use js + jb_conns j"
  using sum_list_update_nat [of i "map jb_conns js" "jb_conns j"] by (simp add: in_use_def map_update)

lemma list_all_update: "list_all P xs \<Longrightarrow> P y \<Longrightarrow> list_all P (xs[i := y])"
  by (auto simp: list_all_iff dest: subsetD [OF set_update_subset_insert])

lemma pool_step_cases:
  assumes "pool_step pool silent e c s lg (js, w) (js', w')"
  obtains (took) i where "i < length js" "queries (jb_rpc (js ! i))" "jb_conns (js ! i) = 0" "has_free pool js"
      "js' = js[i := (js ! i)\<lparr>jb_conns := 1\<rparr>]" "w' = w"
  | (ran) i th where "i < length js" "0 < remaining (jb_rpc (js ! i))" "queries (jb_rpc (js ! i)) \<longrightarrow> 0 < jb_conns (js ! i)"
      "rpc_advance (limited silent e) c s lg (jb_rpc (js ! i)) w = (th, w')" "js' = js[i := \<lparr>jb_rpc = th, jb_conns = 0\<rparr>]"
  using assms by (auto elim: pool_step_elim)

lemma conns_step:
  assumes "pool_step pool silent e c s lg (js, w) (js', w')" "conns_ok pool js"
  shows "conns_ok pool js'"
  using assms(1)
proof (cases rule: pool_step_cases)
  case (took i)
  have "in_use js' = Suc (in_use js)" using in_use_update [OF took(1), of "(js ! i)\<lparr>jb_conns := 1\<rparr>"] took by simp
  moreover have "job_ok ((js ! i)\<lparr>jb_conns := 1\<rparr>)" using took(2) by (simp add: job_ok_def)
  ultimately show ?thesis using assms(2) took(4,5) by (auto simp: conns_ok_def has_free_def intro: list_all_update)
next
  case (ran i th)
  have "in_use js' \<le> in_use js" using in_use_update [OF ran(1), of "\<lparr>jb_rpc = th, jb_conns = 0\<rparr>"] ran(5) by simp
  moreover have "job_ok \<lparr>jb_rpc = th, jb_conns = 0\<rparr>" by (simp add: job_ok_def)
  ultimately show ?thesis using assms(2) ran(5) by (auto simp: conns_ok_def intro: list_all_update)
qed

text \<open>A run with waits is a run of the RPCs without them.\<close>

lemma pool_rpc:
  assumes "pool_step pool silent e c s lg (js, w) (js', w')"
  shows "(rpc_step (limited silent e) c s lg)\<^sup>=\<^sup>= (map jb_rpc js, w) (map jb_rpc js', w')"
  using assms
proof (cases rule: pool_step_cases)
  case (took i)
  then have "map jb_rpc js' = map jb_rpc js" by (simp add: map_update list_update_same_conv)
  with took(6) show ?thesis by simp
next
  case (ran i th)
  have "rpc_step (limited silent e) c s lg (map jb_rpc js, w) ((map jb_rpc js)[i := th], w')"
    using ran by (intro run_rpc) simp_all
  with ran(5) show ?thesis by (simp add: map_update)
qed

text \<open>A phase runs one statement at most, and none unless it holds a connection.\<close>

lemma advance_queries:
  "advance e s lg ph w = (ph', w') \<Longrightarrow>
   sql_calls w' \<le> (if queries (InService req em ph) then Suc (sql_calls w) else sql_calls w) \<and> sql_calls w \<le> sql_calls w'"
  by (cases ph) (auto simp: Let_def split_def create_session_def buildSessionData_def find_by_email_def
      split: sum.splits if_splits)

lemma rpc_queries:
  assumes "rpc_advance e c s lg th w = (th', w')"
  shows "sql_calls w' = sql_calls w \<or> (queries th \<and> sql_calls w' = Suc (sql_calls w))"
proof (cases th)
  case (Received req)
  have "sql_calls (snd (rpc_advance e c s lg (Received req) w)) = sql_calls w"
    by (simp add: Let_def split_def split: sum.split)
  with assms Received show ?thesis by simp
next
  case (InService req em ph)
  show ?thesis
  proof (cases "\<exists>r. ph = Finished r")
    case True
    with assms InService show ?thesis by (auto simp: reply_def Let_def split: sum.splits if_splits)
  next
    case False
    obtain q v where q: "advance e s lg ph w = (q, v)" by fastforce
    with False assms InService have "v = w'" by (cases ph) (auto simp: rpc_advance_service)
    with advance_queries [OF q, of req em] InService show ?thesis by (auto split: if_splits)
  qed
qed (use assms in simp)

subsection \<open>Every run ends with all RPCs answered\<close>

text \<open>The statements an RPC may still run, and the steps it may still take, its waits for a
  connection included.\<close>

fun to_run :: "phase \<Rightarrow> nat" where
  "to_run (Arrived ck em) = 3"
| "to_run (Verify em) = 3"
| "to_run (LookUp em usr) = 2"
| "to_run (Finished r) = 0"
| "to_run _ = 1"

fun statements :: "rpc \<Rightarrow> nat" where
  "statements (Received req) = 3"
| "statements (InService req em ph) = to_run ph"
| "statements (Answered resp) = 0"

definition left :: "job \<Rightarrow> nat" where
  "left j = remaining (jb_rpc j) + statements (jb_rpc j) - jb_conns j"

lemma advance_statements:
  "advance e s lg ph w = (ph', w') \<Longrightarrow> to_run ph' + (if queries (InService req em ph) then 1 else 0) \<le> to_run ph"
  by (cases ph) (auto simp: Let_def split_def split: sum.splits if_splits)

lemma rpc_statements:
  assumes "rpc_advance e c s lg th w = (th', w')"
  shows "statements th' + (if queries th then 1 else 0) \<le> statements th"
proof (cases th)
  case (Received req)
  with assms show ?thesis by (auto simp: Let_def split_def split: sum.splits if_splits)
next
  case (InService req em ph)
  show ?thesis
  proof (cases "\<exists>r. ph = Finished r")
    case True
    with assms InService show ?thesis by (auto simp: Let_def split_def)
  next
    case False
    obtain q v where q: "advance e s lg ph w = (q, v)" by fastforce
    with False assms InService have "th' = InService req em q" by (cases ph) (auto simp: rpc_advance_service)
    with advance_statements [OF q, of req em] InService show ?thesis by simp
  qed
next
  case (Answered resp)
  with assms show ?thesis by auto
qed

lemma queries_left: "queries th \<Longrightarrow> 1 \<le> statements th" "queries th \<Longrightarrow> 0 < remaining th"
  by (cases th rule: queries.cases; simp)+

lemma conns_job: "conns_ok pool js \<Longrightarrow> i < length js \<Longrightarrow> job_ok (js ! i)"
  by (simp add: conns_ok_def list_all_length)

lemma left_update: "i < length js \<Longrightarrow> left j < left (js ! i) \<Longrightarrow> sum_list (map left (js[i := j])) < sum_list (map left js)"
  using sum_list_update_nat [of i "map left js" "left j"] by (simp add: map_update)

lemma pool_less:
  assumes "pool_step pool silent e c s lg (js, w) (js', w')" "conns_ok pool js"
  shows "sum_list (map left js') < sum_list (map left js)"
  using assms(1)
proof (cases rule: pool_step_cases)
  case (took i)
  have "left ((js ! i)\<lparr>jb_conns := 1\<rparr>) < left (js ! i)"
    using queries_left [OF took(2)] took(3) by (simp add: left_def)
  with left_update [OF took(1)] took(5) show ?thesis by simp
next
  case (ran i th)
  have "jb_conns (js ! i) = (if queries (jb_rpc (js ! i)) then 1 else 0)"
    using conns_job [OF assms(2) ran(1)] ran(3) by (auto simp: job_ok_def split: if_splits)
  with rpc_statements [OF ran(4)] remaining_decreases [OF ran(4,2)] queries_left(1) [of "jb_rpc (js ! i)"]
  have "left \<lparr>jb_rpc = th, jb_conns = 0\<rparr> < left (js ! i)" by (auto simp: left_def split: if_splits)
  with left_update [OF ran(1)] ran(5) show ?thesis by simp
qed

text \<open>The waits cannot be circular: an RPC that waits for a connection holds none, and one that holds a
  connection does not wait for another.\<close>

lemma pool_progress:
  assumes "conns_ok pool js" "0 < sint (Timeout c)" "i < length js" "0 < remaining (jb_rpc (js ! i))"
  shows "\<exists>st. pool_step pool silent e c s lg (js, w) st"
proof -
  have heard: "comes_back silent e c th w" for th using assms(2) by (simp add: comes_back_def split: rpc.split)
  have run: "\<exists>st. pool_step pool silent e c s lg (js, w) st"
    if "k < length js" "0 < remaining (jb_rpc (js ! k))" "queries (jb_rpc (js ! k)) \<longrightarrow> 0 < jb_conns (js ! k)" for k
    using run_phase [OF that heard] by (metis prod.collapse)
  show ?thesis
  proof (cases "queries (jb_rpc (js ! i)) \<longrightarrow> 0 < jb_conns (js ! i)")
    case True
    with run assms(3,4) show ?thesis by blast
  next
    case waits: False
    show ?thesis
    proof (cases "has_free pool js")
      case True
      with waits take_conn [OF assms(3)] show ?thesis by blast
    next
      case False
      then have "in_use js \<noteq> 0" by (auto simp: has_free_def)
      then obtain k where k: "k < length js" "jb_conns (js ! k) \<noteq> 0" by (auto simp: in_use_def in_set_conv_nth)
      then have "queries (jb_rpc (js ! k))" using conns_job [OF assms(1) k(1)] by (auto simp: job_ok_def split: if_splits)
      with run [OF k(1) queries_left(2)] k(2) show ?thesis by simp
    qed
  qed
qed

lemma pool_run:
  "((pool_step pool silent e c s lg) ^^ k) (js, w) (js', w') \<Longrightarrow> conns_ok pool js \<Longrightarrow>
   conns_ok pool js' \<and> k + sum_list (map left js') \<le> sum_list (map left js)
   \<and> (rpc_step (limited silent e) c s lg)\<^sup>*\<^sup>* (map jb_rpc js, w) (map jb_rpc js', w')"
proof (induction k arbitrary: js' w')
  case (Suc k)
  then obtain js1 w1 where run: "((pool_step pool silent e c s lg) ^^ k) (js, w) (js1, w1)"
    and st: "pool_step pool silent e c s lg (js1, w1) (js', w')" by auto
  from Suc.IH [OF run Suc.prems(2)] have ok: "conns_ok pool js1" "k + sum_list (map left js1) \<le> sum_list (map left js)"
    "(rpc_step (limited silent e) c s lg)\<^sup>*\<^sup>* (map jb_rpc js, w) (map jb_rpc js1, w1)" by simp_all
  from ok(3) pool_rpc [OF st] have "(rpc_step (limited silent e) c s lg)\<^sup>*\<^sup>* (map jb_rpc js, w) (map jb_rpc js', w')"
    by (auto intro: rtranclp.rtrancl_into_rtrancl)
  with conns_step [OF st ok(1)] pool_less [OF st ok(1)] ok(2) show ?case by simp
qed simp

lemma start_pool:
  assumes "fst (main_start pf e vs w) = Inr rn"
  shows "MaxOpenConns (rn_pool rn) = 5"
proof -
  have "MaxOpenConns (rn_pool rn) = 5" if "fst (run pf e vs v) = Return (Inr rn)" for v
    using that by (auto simp: run_def Connect_def Let_def split_def split: outcome.splits sum.splits option.splits)
  with assms show ?thesis
    by (auto simp: main_start_def Let_def split_def split: outcome.splits sum.splits option.splits)
qed

subsection \<open>Properties\<close>

text \<open>C19 (termination): the RPCs of a started program cannot block each other for ever.  Their statements wait for one of
  the five connections of the shared pool, and Authentik may fail to answer any of the requests; however the RPCs interleave,
  \<open>n\<close> of them take at most \<open>9 n\<close> steps, waits included, and a state without a next step has every RPC answered
  and every connection back.  At most five connections are in use at any time, only an RPC
  that holds one runs a statement, and without the waits the run is one of \<open>rpc_step\<close>, in which the requests that stay
  unanswered have failed by the time limit.\<close>

theorem rpcs_all_answered:
  assumes "fst (main_start pf e vs w0) = Inr rn"
    and "((pool_step (rn_pool rn) silent e (rn_client rn) (rn_store rn) (rn_logger rn)) ^^ k) (map accepted reqs, w) (js, w')"
  shows "k \<le> 9 * length reqs \<and> in_use js \<le> 5
    \<and> ((\<forall>st. \<not> pool_step (rn_pool rn) silent e (rn_client rn) (rn_store rn) (rn_logger rn) (js, w') st)
        \<longrightarrow> list_all (\<lambda>j. \<exists>resp. j = \<lparr>jb_rpc = Answered resp, jb_conns = 0\<rparr>) js)
    \<and> (\<forall>js2 w2. pool_step (rn_pool rn) silent e (rn_client rn) (rn_store rn) (rn_logger rn) (js, w') (js2, w2)
        \<longrightarrow> sql_calls w2 = sql_calls w' \<or> sql_calls w2 = Suc (sql_calls w')
          \<and> (\<exists>i < length js. jb_conns (js ! i) = 1 \<and> (\<exists>th. js2 = js[i := \<lparr>jb_rpc = th, jb_conns = 0\<rparr>])))
    \<and> (rpc_step (limited silent e) (rn_client rn) (rn_store rn) (rn_logger rn))\<^sup>*\<^sup>* (map Received reqs, w) (map jb_rpc js, w')"
proof -
  let ?step = "pool_step (rn_pool rn) silent e (rn_client rn) (rn_store rn) (rn_logger rn)"
  have five: "MaxOpenConns (rn_pool rn) = 5" using assms(1) by (rule start_pool)
  have limit: "0 < sint (Timeout (rn_client rn))" by (simp add: rn_client_def NewClient_def)
  have "conns_ok (rn_pool rn) (map accepted reqs)"
    by (simp add: conns_ok_def job_ok_def accepted_def in_use_def list_all_iff comp_def)
  from pool_run [OF assms(2) this] have ok: "conns_ok (rn_pool rn) js"
    "k + sum_list (map left js) \<le> sum_list (map left (map accepted reqs))"
    and rpcs: "(rpc_step (limited silent e) (rn_client rn) (rn_store rn) (rn_logger rn))\<^sup>*\<^sup>*
      (map jb_rpc (map accepted reqs), w) (map jb_rpc js, w')" by blast+
  have "sum_list (map left (map accepted reqs)) = 9 * length reqs" by (induction reqs) (simp_all add: left_def accepted_def)
  with ok(2) have "k \<le> 9 * length reqs" by simp
  moreover have "in_use js \<le> 5" using ok(1) five by (simp add: conns_ok_def)
  moreover have "list_all (\<lambda>j. \<exists>resp. j = \<lparr>jb_rpc = Answered resp, jb_conns = 0\<rparr>) js" if stuck: "\<forall>st. \<not> ?step (js, w') st"
    unfolding list_all_length
  proof (intro allI impI)
    fix i assume i: "i < length js"
    have "\<not> 0 < remaining (jb_rpc (js ! i))" using pool_progress [OF ok(1) limit i] stuck by blast
    then obtain resp where "jb_rpc (js ! i) = Answered resp" by (cases "jb_rpc (js ! i)") simp_all
    moreover from this have "jb_conns (js ! i) = 0" using conns_job [OF ok(1) i] by (simp add: job_ok_def)
    ultimately show "\<exists>resp. js ! i = \<lparr>jb_rpc = Answered resp, jb_conns = 0\<rparr>" by (cases "js ! i") simp
  qed
  moreover have "sql_calls w2 = sql_calls w' \<or> sql_calls w2 = Suc (sql_calls w')
      \<and> (\<exists>i < length js. jb_conns (js ! i) = 1 \<and> (\<exists>th. js2 = js[i := \<lparr>jb_rpc = th, jb_conns = 0\<rparr>]))"
    if "?step (js, w') (js2, w2)" for js2 w2
    using that
  proof (cases rule: pool_step_cases)
    case (ran i th)
    with rpc_queries [OF ran(4)] conns_job [OF ok(1) ran(1)] show ?thesis by (auto simp: job_ok_def le_Suc_eq)
  qed simp
  moreover have same: "map jb_rpc (map accepted reqs) = map Received reqs" by (simp add: accepted_def)
  note rpcs [unfolded same]
  ultimately show ?thesis by blast
qed

text \<open>Six RPCs, an endpoint that never answers.\<close>

lemma rpcs_all_answered_witness:
  "\<exists>rn st. fst (main_start sample_platform sample_env sample_vars sample_world) = Inr rn
    \<and> pool_step (rn_pool rn) (\<lambda>k. True) sample_env (rn_client rn) (rn_store rn) (rn_logger rn)
        (map accepted (replicate 6 sample_request), sample_world) st"
proof -
  obtain rn where rn: "fst (main_start sample_platform sample_env sample_vars sample_world) = Inr rn"
    using sample_start by blast
  have "((pool_step (rn_pool rn) (\<lambda>k. True) sample_env (rn_client rn) (rn_store rn) (rn_logger rn)) ^^ 0)
      (map accepted (replicate 6 sample_request), sample_world) (map accepted (replicate 6 sample_request), sample_world)" by simp
  from rpcs_all_answered [OF rn this] rn show ?thesis by (auto simp: accepted_def numeral_eq_Suc)
qed

end
