(* ===== verification/LegacyPorts.thy ===== *)
theory LegacyPorts
  imports World
begin

text \<open>
  \<open>internal/core/ports/driven\<close> and \<open>internal/core/ports/driving\<close>: the interfaces of an earlier design,
  in which Envoy's external processor handed the service the request's headers and the identity
  came from an OIDC token in a cookie.  No package imports them; the declarations are modelled so
  that a contract for them can be stated beside those of \<open>Ports\<close>.  \<open>HeaderValue\<close> of Envoy's API is not
  part of the repository and is a type parameter.
\<close>

record driven_session_store =
  dr_FindByUserID :: "string \<Rightarrow> world \<Rightarrow> (go_error + session option) \<times> world"
  dr_Create :: "string \<Rightarrow> world \<Rightarrow> (go_error + session) \<times> world"

record driven_user_repository =
  dr_FindByEmail :: "string \<Rightarrow> world \<Rightarrow> (go_error + user) \<times> world"

record token_decoder =
  dr_Decode :: "string \<Rightarrow> world \<Rightarrow> (go_error + identity) \<times> world"

record 'h driving_auth_service =
  dr_EnsureSession :: "'h list \<Rightarrow> world \<Rightarrow> (go_error + string) \<times> world"

end
