(* ===== verification/Magefile.thy ===== *)
theory Magefile
  imports Domain
begin

text \<open>
  \<open>magefiles/magefile.go\<close>: the build targets.  What they do outside the process is a list of
  actions; what the tools answer (whether a step fails, the output of \<open>git rev-parse\<close>, the host's
  platform) is the argument \<open>tools\<close>.  A target run through \<open>mg.Deps\<close> that fails ends mage
  before the target that needs it goes on.
\<close>

datatype action =
    Say string
  | RunCommand "string list"
  | RunCommandEnv "(string \<times> string) list" "string list"
  | OutputOf "string list"
  | MkdirAll string nat
  | RemoveAll string

record tools =
  fails :: "action \<Rightarrow> string option"
  git_output :: string
  host_os :: string
  host_arch :: string

definition binaryName :: string where "binaryName = ''ghost-sso-proxy''"
definition mainPkg :: string where "mainPkg = ''./cmd/''"
definition outDir :: string where "outDir = ''bin''"

text \<open>The permission \<open>0o755\<close> is 493; the arrow of the message is U+2192 in UTF-8.\<close>

definition arrow :: string where "arrow = [CHR 0xE2, CHR 0x86, CHR 0x92]"

text \<open>An action's error, and the trace with the action at its end.\<close>

definition act :: "tools \<Rightarrow> action \<Rightarrow> action list \<Rightarrow> go_error option \<times> action list" where
  "act t a tr = (map_option ErrorText (fails t a), tr @ [a])"

definition Tidy :: "tools \<Rightarrow> action list \<Rightarrow> go_error option \<times> action list" where
  "Tidy t tr = act t (RunCommand [''go'', ''mod'', ''tidy'']) (tr @ [Say ''>> go mod tidy''])"

definition Clean :: "tools \<Rightarrow> action list \<Rightarrow> go_error option \<times> action list" where
  "Clean t tr = act t (RemoveAll outDir) (tr @ [Say (''>> cleaning '' @ outDir)])"

text \<open>\<open>sh.Output\<close> with its error dropped.\<close>

definition ldflags :: "tools \<Rightarrow> action list \<Rightarrow> string \<times> action list" where
  "ldflags t tr =
     (let a = OutputOf [''git'', ''rev-parse'', ''--short'', ''HEAD''];
          commit = (if git_output t = [] then ''unknown'' else git_output t)
      in (''-s -w -X '' @ ''github.com/csg33k/ghost-sso-proxy/config'' @ ''.GitCommit='' @ commit, tr @ [a]))"

definition build :: "tools \<Rightarrow> string \<Rightarrow> string \<Rightarrow> action list \<Rightarrow> go_error option \<times> action list" where
  "build t goos goarch tr =
     (let (err, tr1) = act t (MkdirAll outDir 493) tr in
      case err of
        Some x \<Rightarrow> (Some (Wrapped ''creating output directory: '' x []), tr1)
      | None \<Rightarrow>
          (let out0 = outDir @ ''/'' @ binaryName;
               out = (if goos = ''windows'' then out0 @ ''.exe'' else out0);
               tr2 = tr1 @ [Say (''>> building '' @ goos @ ''/'' @ goarch @ '' '' @ arrow @ '' '' @ out)];
               (flags, tr3) = ldflags t tr2
           in act t (RunCommandEnv [(''GOOS'', goos), (''GOARCH'', goarch), (''CGO_ENABLED'', ''0'')]
                [''go'', ''build'', ''-trimpath'', ''-ldflags'', flags, ''-o'', out, mainPkg]) tr3))"

definition after_tidy :: "tools \<Rightarrow> (action list \<Rightarrow> go_error option \<times> action list) \<Rightarrow> action list \<Rightarrow> go_error option \<times> action list" where
  "after_tidy t target tr = (let (err, tr1) = Tidy t tr in case err of Some x \<Rightarrow> (Some x, tr1) | None \<Rightarrow> target tr1)"

definition Build :: "tools \<Rightarrow> action list \<Rightarrow> go_error option \<times> action list" where
  "Build t = after_tidy t (build t (host_os t) (host_arch t))"

definition BuildLinux :: "tools \<Rightarrow> action list \<Rightarrow> go_error option \<times> action list" where
  "BuildLinux t = after_tidy t (build t ''linux'' ''amd64'')"
subsection \<open>The commands of a target\<close>

lemma act_ok [simp]: "fails t a = None \<Longrightarrow> act t a tr = (None, tr @ [a])"
  by (simp add: act_def)

text \<open>When no step fails, \<open>BuildLinux\<close> tidies the module and then runs exactly one
  compiler command: a static cross-compilation for linux/amd64 to \<open>bin/ghost-sso-proxy\<close>,
  whatever the host; and when tidying fails nothing is compiled.\<close>

lemma BuildLinux_commands:
  "if fails t (RunCommand [''go'', ''mod'', ''tidy'']) = None \<and> fails t (MkdirAll ''bin'' 493) = None
   then \<exists>flags tr. snd (BuildLinux t []) = tr @
       [RunCommandEnv [(''GOOS'', ''linux''), (''GOARCH'', ''amd64''), (''CGO_ENABLED'', ''0'')]
          [''go'', ''build'', ''-trimpath'', ''-ldflags'', flags, ''-o'', ''bin/ghost-sso-proxy'', ''./cmd/'']]
     \<and> list_all (\<lambda>a. case a of RunCommandEnv env args \<Rightarrow> False | _ \<Rightarrow> True) tr
     \<and> RunCommand [''go'', ''mod'', ''tidy''] \<in> set tr
   else fst (BuildLinux t []) \<noteq> None
     \<and> list_all (\<lambda>a. case a of RunCommandEnv env args \<Rightarrow> False | _ \<Rightarrow> True) (snd (BuildLinux t []))"
  by (auto simp: BuildLinux_def after_tidy_def Tidy_def build_def ldflags_def act_def outDir_def binaryName_def
      mainPkg_def Let_def split: option.splits)

end
