(* ===== verification/Spec2Isabelle.thy ===== *)
theory Spec2Isabelle
  imports SessionData Secrets Login Pool LegacyPorts Magefile
begin

text \<open>
  A model of ghost-sso-proxy: an Envoy External Authorization (ExtAuth) gRPC server that lets a
  browser into the Ghost admin when Authentik knows it, by planting a Ghost session cookie.

  \<^bold>\<open>The program.\<close>  \<open>cmd/main.go\<close> reads the environment (\<open>config/config.go\<close>), opens a MariaDB pool,
  reads Ghost's \<open>admin_session_secret\<close> once and serves \<open>Check\<close> RPCs until a signal arrives.  One
  RPC is one HTTP request of a browser: the server (\<open>adapters/primary/extauth\<close>) forwards the
  browser's cookies to Authentik (\<open>adapters/secondary/authentik\<close>); a 302 is relayed, an error
  lets the request through, and a 200 names an email, for which the core
  (\<open>core/service\<close>) finds the staff user and finds or creates a session row
  (\<open>adapters/secondary/mariadb\<close>).  A new signed cookie is planted by a redirect to \<open>/ghost/\<close>, a
  request that has the cookie already passes.

  \<^bold>\<open>The theories, in the order of their imports.\<close>
  \<^item> \<open>Prelude\<close>: the 64-bit \<open>int\<close> of Go, decimal printing, trimming, the named collections, and the locale
    \<open>forward_simulation\<close> of a step relation that refines another.
  \<^item> \<open>Utf8\<close>, \<open>Encodings\<close>, \<open>Sha256\<close>, \<open>GoTime\<close>, \<open>Rfc3339\<close>, \<open>HttpCookies\<close>, \<open>Json\<close>: what the source uses
    of Go's standard library: runes and \<open>[]rune\<close> conversions, \<open>encoding/hex\<close> and
    \<open>encoding/base64\<close>, \<open>crypto/sha256\<close> and \<open>crypto/hmac\<close>, \<open>time.Time\<close> with \<open>Add\<close>, \<open>AddDate\<close> of days
    and \<open>Format(RFC3339Nano)\<close>, \<open>http.Request.Cookie\<close>, and \<open>json.Marshal\<close> and \<open>json.Unmarshal\<close> of
    strings.  A Go string is a list of bytes.
  \<^item> \<open>Domain\<close> (\<open>core/domain\<close>): the sentinels, errors and \<open>errors.Is\<close>, \<open>User\<close>, \<open>Session\<close>, \<open>Identity\<close>.
  \<^item> \<open>World\<close>: the state every operation passes on (tables, log, requests sent, and how often the
    clock, the random source and the database were asked) and the environment.
  \<^item> \<open>Ports\<close> (\<open>core/ports/primary\<close>, \<open>core/ports/secondary\<close>): the interfaces as records of functions,
    and their contracts as the locales \<open>user_port\<close>, \<open>session_port\<close> and \<open>forward_auth_port\<close>.
    \<open>LegacyPorts\<close> (\<open>core/ports/driven\<close>, \<open>core/ports/driving\<close>): the interfaces no code uses any more.
  \<^item> \<open>Samples\<close>: the concrete environment and tables of the witnesses.
  \<^item> \<open>UserRepository\<close> (\<open>mariadb/user_repository.go\<close>): \<open>find_by_email\<close> is \<open>FindByEmail\<close>; interprets
    \<open>user_port\<close>.
  \<^item> \<open>SessionStore\<close> (\<open>mariadb/session_store.go\<close>): \<open>NewSessionStore\<close>, \<open>find_by_user_id\<close>
    (\<open>FindByUserID\<close>), \<open>create_session\<close> (\<open>Create\<close>), \<open>signCookie\<close>, \<open>generateSessionID\<close>,
    \<open>generateObjectID\<close>, \<open>buildSessionData\<close>, \<open>safeHead\<close>, \<open>safeTail\<close>; interprets \<open>session_port\<close>.
  \<^item> \<open>SessionData\<close>: a reader of JSON documents and what it reads back from \<open>session_data\<close>, and the
    arithmetic of the expiry.
  \<^item> \<open>ForwardAuth\<close> (\<open>authentik/forward_auth.go\<close>): \<open>Check\<close>; interprets \<open>forward_auth_port\<close>.
  \<^item> \<open>AuthService\<close> (\<open>core/service/auth_service.go\<close>): \<open>EnsureSession\<close> over the interface values; its
    lemmas are proved in the locale \<open>auth_core\<close> and interpreted on the MariaDB adapters.
  \<^item> \<open>ExtAuth\<close> (\<open>extauth/server.go\<close>): \<open>ext_check\<close> is \<open>Server.Check\<close>; \<open>wired\<close> is the server of \<open>main.go\<close>.
  \<^item> \<open>Login\<close>: the answer of every RPC as a function of Authentik's answer, the cookie and the tables, and
    the login of a browser from its first request to the one that passes.
  \<^item> \<open>Interleaving\<close>: \<open>EnsureSession\<close> cut at its SQL statements (\<open>advance\<close>) and any number of
    calls interleaved (\<open>sys_step\<close>).
  \<^item> \<open>Rpcs\<close>: whole \<open>Check\<close> RPCs cut at what they share (\<open>rpc_advance\<close>), and any number of them
    interleaved (\<open>rpc_step\<close>).
  \<^item> \<open>Protocol\<close>: the abstract specification.  Its state is the registry of granted sessions and a ticket
    per RPC (\<open>serve\<close>, \<open>protocol_step\<close>); the relation \<open>shows_as\<close> interprets \<open>forward_simulation\<close>: the
    interleaved RPCs refine the protocol, and what is proved of it is carried over.
  \<^item> \<open>Overlap\<close>: RPCs served one after another (\<open>serially\<close>) beside RPCs that overlap, and the rows of
    users no RPC is for.
  \<^item> \<open>Secrets\<close>: the RPCs under two signing secrets side by side, a second interpretation of
    \<open>forward_simulation\<close>.
  \<^item> \<open>Config\<close> (\<open>config/config.go\<close>), \<open>Startup\<close> (\<open>cmd/main.go\<close> up to the listener, \<open>mariadb.Connect\<close>),
    \<open>Shutdown\<close> (the goroutine, the channel and the \<open>select\<close> at the end of \<open>run\<close>, as a step
    relation), \<open>Serving\<close> (that relation together with the RPCs in flight, \<open>system_step\<close>),
    \<open>Program\<close> (\<open>main\<close>: start-up, the serving system it has wired, and the exit status, \<open>program_step\<close>),
    \<open>Pool\<close> (the RPCs of a started program with what they wait for: a connection of the pool
    \<open>mariadb.Connect\<close> limits, and Authentik's answer up to the time limit of the client, \<open>pool_step\<close>),
    \<open>Magefile\<close> (\<open>magefiles/magefile.go\<close>: the commands of the build targets).

  \<^bold>\<open>How state and operations correspond.\<close>  A method with receiver, arguments, result and error is a
  function of the environment, the receiver's record, the arguments and the world, which returns
  \<open>error + result\<close> and the world after it.  A nil pointer result is \<open>None\<close>.  A panic is the
  constructor \<open>Panic\<close>.  A SQL statement is a function of the tables (\<open>select_user\<close>,
  \<open>select_session\<close>, \<open>update_session\<close>, \<open>insert_session\<close>, \<open>select_secret\<close>) that \<open>run_sql\<close> carries out
  or fails.  Go's \<open>int\<close>, \<open>int64\<close> and \<open>time.Duration\<close> are 64-bit words, so the products of the
  lifetime wrap as they do in the program; instants are integers of nanoseconds.

  \<^bold>\<open>What the lemmas show.\<close>  For an RPC: a cookie is planted only for an active staff member Authentik
  vouched for in this very request, a request without a login touches nothing, the decision in every case while nothing fails, and a login
  ends: the cookie that was planted lets the next request pass.  For concurrent RPCs: the same safety under every interleaving,
  the refinement of the abstract protocol, that the sessions table only grows and stays well-formed, that
  they all end although they wait for a limited pool and for Authentik, that they leave other users' sessions alone, that RPCs which do not overlap keep one
  row per user, the duplicate rows that overlapping ones can create, and that only the planted cookies depend on
  the signing secret.  For the serving program: a graceful shutdown answers every accepted RPC,
  and drains.  For the process: what its exit status says of what it has done, and that it can always
  exit.  For the store: which row a lookup answers and what it writes, what is
  inserted, the format of ids, cookies and documents, each with the reader that gives the content
  back.  For the lifetime: the three places it reaches agree up to 106751 days, and overflow
  beyond.  For the configuration and start-up: every outcome, and
  what the log shows of the secret and of the database password.

  \<^bold>\<open>Bounds and fuel.\<close>  \<open>read_json\<close> has the length of its input as fuel and every value it
  reads consumes a character, so the fuel is never what stops it; \<open>rpc_advances 6\<close> is enough because an
  RPC has at most six phases (\<open>rpc_phases_refine\<close>), and a run of \<open>n\<close> RPCs has at most \<open>6 n\<close> steps
  (\<open>rpcs_terminate\<close>), \<open>9 n\<close> with the waits for the at most three statements of each
  (\<open>rpcs_all_answered\<close>); a stopped server has, repeated signals apart, at most \<open>load\<close> steps
  left (\<open>shutdown_drains\<close>); all other recursions are proved to terminate.  The RFC 3339 round trip
  holds for the years 1970 to 9999, the years the program can print.

  \<^bold>\<open>Assumptions.\<close>  The environment is arbitrary: the clock may go backwards, any statement may
  fail before or after it took effect, the collation (\<open>text_eq\<close>), the rounding of time columns
  (\<open>col_time\<close>) and of time arguments (\<open>arg_time\<close>), the choice among rows of equal rank
  (\<open>tie\<close>), Authentik's answers and the verdict on its URL are functions no law is assumed of, except
  where a theorem names one.  That \<open>grpc.Server.Serve\<close> returns nil only after
  \<open>GracefulStop\<close>, which waits for the RPCs in flight, is part of the step relation of \<open>Shutdown\<close>.

  \<^bold>\<open>Not modelled.\<close>  The bodies of third-party packages (gRPC, protobuf, the MySQL driver, godotenv),
  TLS, cancellation of contexts (a cancelled statement is a fault; a cancelled wait for a connection is not
  modelled), how the pool opens, keeps and closes its connections (one that cannot be opened is a
  fault of the statement), the bytes of log lines, the Python scripts,
  Docker and Kubernetes files and the documentation.

  The rest of this theory states the properties that span components: the one lifetime setting as
  the configuration, the cookie, the session row and the lookup see it, the life of a row that
  is refreshed, and the way from the environment and the tables at start-up to a planted cookie.
\<close>

lemma seconds_product: "word_of_int d * 24 * 60 * 60 = (word_of_int (d * 86400) :: go_int)"
proof -
  have "(word_of_int d * 24 * 60 * 60 :: go_int) = word_of_int d * word_of_int 24 * word_of_int 60 * word_of_int 60"
    by simp
  also have "\<dots> = word_of_int (d * 86400)"
    by (simp only: wi_hom_mult) (simp add: mult.assoc)
  finally show ?thesis .
qed

lemma header_value:
  "buildSetCookieHeader (wired e c s lg) v = ''ghost-admin-api-session='' @ v
      @ ''; Path=/ghost; HttpOnly; Secure; SameSite=None; Max-Age='' @ int_dec (sint (sessionMaxAge s * 86400))"
  by (simp add: buildSetCookieHeader_def ghostSessionCookieName_def mult.assoc)

text \<open>The product of the days and the seconds of a day is exact up to \<open>2^63 / 86400\<close> days.\<close>

lemma seconds_exact:
  assumes "0 \<le> sint d" "sint d \<le> 106751991167300"
  shows "sint (d * 86400 :: go_int) = sint d * 86400"
proof -
  have "d * 86400 = word_of_int (sint d * 86400)" using wi_hom_mult [of "sint d" 86400] by simp
  then show ?thesis using assms by (simp only:) (intro sint_small; simp)
qed

lemma max_age_secs:
  assumes "0 \<le> d" "d \<le> 106751" "sessionMaxAge s = word_of_int d"
  shows "buildSetCookieHeader (wired e c s lg) v = ''ghost-admin-api-session='' @ v
      @ ''; Path=/ghost; HttpOnly; Secure; SameSite=None; Max-Age='' @ int_dec (d * 86400)"
proof -
  have "sint (sessionMaxAgeSecs (wired e c s lg)) = d * 86400"
    unfolding wired_fields(4) assms(3) seconds_product using assms(1,2) by (intro sint_small) simp_all
  then show ?thesis by (simp add: buildSetCookieHeader_def ghostSessionCookieName_def)
qed

text \<open>C24 (bounds): for a lifetime of up to 106751 days, and expiries before the year 10000, the three places
  it reaches agree: the cookie's \<open>Max-Age\<close> in seconds, the row's \<open>originalMaxAge\<close> in milliseconds, and
  the row's expiry, which reads back as the current instant plus the lifetime to the nanosecond.\<close>

theorem lifetimes_agree:
  assumes "0 \<le> d" "d \<le> 106751" "sessionMaxAge s = word_of_int d"
    and "0 \<le> now" "now + 1000000000 * (d * 86400) < 253402300800 * 1000000000"
  shows "buildSetCookieHeader (wired e c s lg) v = ''ghost-admin-api-session='' @ v
      @ ''; Path=/ghost; HttpOnly; Secure; SameSite=None; Max-Age='' @ int_dec (d * 86400)
    \<and> sint (cm_OriginalMaxAge (sd_Cookie (session_data_at now u (sessionMaxAge s)))) = 1000 * (d * 86400)
    \<and> read_rfc3339 (cm_Expires (sd_Cookie (session_data_at now u (sessionMaxAge s)))) = now + 1000000000 * (d * 86400)"
proof (intro conjI)
  have span: "d * day_nanos = 1000000000 * (d * 86400)" by (simp add: day_nanos_def nanos_per_sec_def)
  show "buildSetCookieHeader (wired e c s lg) v = ''ghost-admin-api-session='' @ v
      @ ''; Path=/ghost; HttpOnly; Secure; SameSite=None; Max-Age='' @ int_dec (d * 86400)"
    using assms(1-3) by (rule max_age_secs)
  have "now + d * day_nanos < 253402300800 * nanos_per_sec" using assms(5) by (simp add: span nanos_per_sec_def)
  note life = session_lifetime [OF assms(4,1,2) this]
  show "sint (cm_OriginalMaxAge (sd_Cookie (session_data_at now u (sessionMaxAge s)))) = 1000 * (d * 86400)"
    using life [of u] unfolding assms(3) span by linarith
  show "read_rfc3339 (cm_Expires (sd_Cookie (session_data_at now u (sessionMaxAge s)))) = now + 1000000000 * (d * 86400)"
    using life [of u] unfolding assms(3) span by blast
qed

lemma lifetimes_agree_witness:
  "sint (cm_OriginalMaxAge (sd_Cookie (session_data_at start_time ''1'' (sessionMaxAge sample_store)))) = 15552000000
   \<and> read_rfc3339 (cm_Expires (sd_Cookie (session_data_at start_time ''1'' (sessionMaxAge sample_store))))
      = start_time + 15552000000000000"
  using lifetimes_agree [of 180 sample_store start_time sample_env sample_client LevelInfo "''x''" "''1''"]
  by (simp add: start_time_def)

text \<open>C25 (error): the configuration accepts lifetimes that do not fit a \<open>time.Duration\<close>: with the required variables and
  \<open>SESSION_MAX_AGE_DAYS\<close> from 106752 to 213503 \<open>Load\<close> succeeds, and every session row created or
  refreshed under it is written with an expiry that is already past.\<close>

theorem accepted_lifetime_overflows:
  assumes "106752 \<le> d" "d \<le> 213503" "u \<noteq> []" "p \<noteq> []" "a \<noteq> []"
  shows "\<exists>c. Load [''DB_USER'' \<mapsto> u, ''DB_PASSWORD'' \<mapsto> p, ''AUTHENTIK_FORWARD_AUTH_URL'' \<mapsto> a,
      ''SESSION_MAX_AGE_DAYS'' \<mapsto> int_dec d] = Return (Inr c)
    \<and> (\<forall>now uid. \<exists>past < now. cm_Expires (sd_Cookie (session_data_at now uid (SessionMaxAgeDays c))) = format_rfc3339_nano past)"
proof -
  let ?vs = "[''DB_USER'' \<mapsto> u, ''DB_PASSWORD'' \<mapsto> p, ''AUTHENTIK_FORWARD_AUTH_URL'' \<mapsto> a,
      ''SESSION_MAX_AGE_DAYS'' \<mapsto> int_dec d]"
  have n: "atoi ''3306'' = Inr 3306" "atoi ''8080'' = Inr 8080"
    by (simp_all add: atoi_def is_digit_def digit_val_def)
  have days: "atoi (int_dec d) = Inr (word_of_int d)" using assms(1,2) atoi_int_dec [of d] by simp
  have pos: "sint (word_of_int d :: go_int) = d" using assms(1,2) by (intro sint_small) simp_all
  obtain c where c: "Load ?vs = Return (Inr c)" "SessionMaxAgeDays c = word_of_int d"
    using assms n days pos by (simp add: Load_def mustEnv_def env_def getenv_def Let_def)
  have "\<exists>past < now. cm_Expires (sd_Cookie (session_data_at now uid (SessionMaxAgeDays c))) = format_rfc3339_nano past"
    for now uid
  proof (intro exI conjI)
    show "now + (d * day_nanos - 2 ^ 64) < now" using assms(2) by (simp add: day_nanos_def nanos_per_sec_def)
    show "cm_Expires (sd_Cookie (session_data_at now uid (SessionMaxAgeDays c))) = format_rfc3339_nano (now + (d * day_nanos - 2 ^ 64))"
      using assms(1,2) by (simp add: c(2) session_data_at_def expiry_add expiry_wrapped)
  qed
  with c(1) show ?thesis by blast
qed

lemma accepted_lifetime_overflows_witness:
  "\<exists>c. Load [''DB_USER'' \<mapsto> ''ghost'', ''DB_PASSWORD'' \<mapsto> ''pw'', ''AUTHENTIK_FORWARD_AUTH_URL'' \<mapsto> ''https://a'',
      ''SESSION_MAX_AGE_DAYS'' \<mapsto> int_dec 106752] = Return (Inr c)
    \<and> (\<forall>now uid. \<exists>past < now. cm_Expires (sd_Cookie (session_data_at now uid (SessionMaxAgeDays c))) = format_rfc3339_nano past)"
  by (rule accepted_lifetime_overflows) simp_all
text \<open>C26 (functional): a session is dropped by its creation instant, not by its expiry.  After a lookup has
  refreshed a session, a later lookup that finds all of the user's rows older than the
  maximum age answers no session, although the refreshed row is still in the table and the
  expiry written into it has not been reached; for lifetimes of up to 106751 days, expiries before the year 10000, a
  query that does not fail and a reflexive collation.\<close>

theorem refreshed_then_excluded:
  assumes "find_by_user_id e s u w = (Inr (Some ses), w1)" "sql_fault e (sql_calls w1) = None"
    and "sessionMaxAge s = word_of_int d" "0 \<le> d" "d \<le> 106751" "\<forall>x. text_eq e x x"
    and "\<forall>r \<in> set (sessions (db w)). text_eq e (sr_user_id r) u \<longrightarrow>
      sr_created_at r < arg_time e (add_days (clock e (now_calls w1)) (sint (- sessionMaxAge s)))"
    and "t1 = clock e (Suc (now_calls w))" "0 \<le> t1" "t1 + d * day_nanos < 253402300800 * nanos_per_sec"
    and "clock e (now_calls w1) < t1 + d * day_nanos"
  shows "fst (find_by_user_id e s u w1) = Inr None
    \<and> (\<exists>row \<in> set (sessions (db w1)). sr_session_id row = s_SessionID ses
        \<and> sr_session_data row = marshal_session_data (session_data_at t1 u (sessionMaxAge s))
        \<and> clock e (now_calls w1) < read_rfc3339 (cm_Expires (sd_Cookie (session_data_at t1 u (sessionMaxAge s)))))"
proof -
  obtain row where row: "row \<in> set (sessions (db w))" "ses = session_of s row"
    and w1: "w1 = after_find w (refreshed e s u (Suc (now_calls w)) row (db w))"
  proof (cases rule: find_cases [of e s u w])
    case (found row)
    then have "row \<in> set (sessions (db w))"
      using subsetD [OF newest_subset found(1)] by (simp add: live_rows_def)
    with found(4) assms(1) that show thesis by auto
  qed (use assms(1) in auto)
  define up :: "session_row \<Rightarrow> session_row" where "up = (\<lambda>r. if text_eq e (sr_session_id r) (sr_session_id row)
    then r\<lparr>sr_session_data := marshal_session_data (session_data_at t1 u (sessionMaxAge s)),
      sr_updated_at := col_time e (clock e (Suc (Suc (now_calls w))))\<rparr> else r)"
  have rows: "sessions (db w1) = map up (sessions (db w))"
    by (simp add: w1 refreshed_def update_session_def up_def assms(8))
  have same: "sr_user_id (up r) = sr_user_id r" "sr_created_at (up r) = sr_created_at r" for r by (simp_all add: up_def)
  have old: "\<not> (text_eq e (sr_user_id r) u \<and> arg_time e (add_days (clock e (now_calls w1)) (sint (- sessionMaxAge s)))
      \<le> sr_created_at r)" if "r \<in> set (sessions (db w1))" for r
    using that assms(7) unfolding rows by (auto simp: same)
  then have empty: "live_rows e s u (clock e (now_calls w1)) (db w1) = []"
    by (simp add: live_rows_def filter_empty_conv)
  have none: "fst (find_by_user_id e s u w1) = Inr None"
  proof (cases rule: find_cases [of e s u w1])
    case (found r)
    from found(1) empty show ?thesis by (simp add: newest_def)
  next
    case (update_failed m r)
    from update_failed(1) empty show ?thesis by (simp add: newest_def)
  qed (use assms(2) in simp_all)
  have "0 \<le> t1 + d * day_nanos" using assms(4,9) by (simp add: day_nanos_def nanos_per_sec_def)
  then have "read_rfc3339 (cm_Expires (sd_Cookie (session_data_at t1 u (sessionMaxAge s)))) = t1 + d * day_nanos"
    using assms(4,5,10) by (simp add: assms(3) session_data_at_def expiry_add expiry_exact read_format)
  with assms(11) have later: "clock e (now_calls w1) < read_rfc3339 (cm_Expires (sd_Cookie (session_data_at t1 u (sessionMaxAge s))))"
    by simp
  have "up row \<in> set (sessions (db w1))" using row(1) by (simp add: rows)
  moreover have "sr_session_id (up row) = s_SessionID ses"
    "sr_session_data (up row) = marshal_session_data (session_data_at t1 u (sessionMaxAge s))"
    using assms(6) by (simp_all add: up_def row(2) session_of_def)
  ultimately show ?thesis using none later by blast
qed

text \<open>Alice's session of the sample tables, looked up 100 and 200 days later.\<close>

definition slow_env :: environment where
  "slow_env = sample_env\<lparr>clock := (\<lambda>n. start_time + (if n < 3 then 100 else 200) * day_nanos)\<rparr>"

lemma refreshed_then_excluded_witness:
  "\<exists>ses w1. find_by_user_id slow_env sample_store ''1'' session_world = (Inr (Some ses), w1)
    \<and> fst (find_by_user_id slow_env sample_store ''1'' w1) = Inr None"
proof -
  have env: "clock slow_env 0 = start_time + 100 * day_nanos" "clock slow_env (Suc 0) = start_time + 100 * day_nanos"
    "clock slow_env 3 = start_time + 200 * day_nanos" "\<And>n. sql_fault slow_env n = None" "text_eq slow_env = (=)"
    "arg_time slow_env = (\<lambda>t. t)" by (simp_all add: slow_env_def sample_env_def)
  have rows: "sessions (db session_world) = [alice_session]" by (simp add: session_world_def world_of_def)
  have alice: "sr_user_id alice_session = ''1''" "sr_created_at alice_session = start_time - 1000 * nanos_per_sec"
    by (simp_all add: alice_session_def)
  have cut: "add_days (start_time + 100 * day_nanos) (- 180) = start_time - 80 * day_nanos"
    "add_days (start_time + 200 * day_nanos) (- 180) = start_time + 20 * day_nanos"
    by (simp_all add: add_days_def wrap64_id unix_secs_def day_nanos_def nanos_per_sec_def start_time_def)
  have live: "live_rows slow_env sample_store ''1'' (clock slow_env 0) (db session_world) = [alice_session]"
    by (simp add: live_rows_def rows alice env cut) (simp add: day_nanos_def nanos_per_sec_def)
  obtain ses d where f: "find_by_user_id slow_env sample_store ''1'' session_world = (Inr (Some ses), after_find session_world d)"
    by (cases rule: find_cases [of slow_env sample_store "''1''" session_world]) (use live env in auto)
  have "fst (find_by_user_id slow_env sample_store ''1'' (after_find session_world d)) = Inr None \<and>
    (\<exists>row \<in> set (sessions (db (after_find session_world d))). sr_session_id row = s_SessionID ses
        \<and> sr_session_data row = marshal_session_data (session_data_at (start_time + 100 * day_nanos) ''1'' (sessionMaxAge sample_store))
        \<and> clock slow_env (now_calls (after_find session_world d)) < read_rfc3339 (cm_Expires (sd_Cookie
             (session_data_at (start_time + 100 * day_nanos) ''1'' (sessionMaxAge sample_store)))))"
    by (rule refreshed_then_excluded [OF f, of 180])
      (simp_all add: env rows alice cut, simp_all add: day_nanos_def nanos_per_sec_def start_time_def)
  with f show ?thesis by blast
qed


subsection \<open>From start-up to the planted cookie\<close>

text \<open>C10 (safety): a cookie that the program serves after its start-up is what the configuration and the tables say:
  the redirect goes to \<open>/ghost/\<close>, the cookie's value is the signature, under the secret read from
  the settings table at start-up, of a session in the table that belongs to an active staff member whose email
  the configured Authentik endpoint gave for this request, and its \<open>Max-Age\<close> is the configured number
  of days times 86400 in 64-bit arithmetic, which is exact up to 106751991167300 days.\<close>

theorem served_cookie:
  assumes "fst (main_start pf e vs w0) = Inr rn" "Authorization sv \<in> set (rn_services rn)"
    and "fst (ext_check sv req w) = (deniedRedirectWithCookie path v, None)"
  shows "\<exists>setting raw login usr row secs.
    Load vs = Return (Inr (rn_config rn)) \<and> path = ''/ghost/''
    \<and> setting \<in> set (settings (db w0)) \<and> text_eq e (st_key setting) ''admin_session_secret'' \<and> st_value setting = Some raw
    \<and> round_trip e (length (http_sent w))
        (login_request (NewClient (AuthentikForwardAuthURL (rn_config rn))) req) = Inr login \<and> rs_status login = 200
    \<and> usr \<in> set (users (db w)) \<and> ur_status usr = ''active''
    \<and> text_eq e (ur_email usr) (header_get (rs_header login) ''X-Authentik-Email'')
    \<and> row \<in> set (sessions (db (snd (ext_check sv req w))))
    \<and> (sr_user_id row = ur_id usr \<or> text_eq e (sr_user_id row) (ur_id usr))
    \<and> v = ''ghost-admin-api-session='' @ signCookie (sr_session_id row) (fst (unwrap_secret raw))
        @ ''; Path=/ghost; HttpOnly; Secure; SameSite=None; Max-Age='' @ int_dec secs
    \<and> secs = sint (SessionMaxAgeDays (rn_config rn) * 86400)
    \<and> (sint (SessionMaxAgeDays (rn_config rn)) \<le> 106751991167300 \<longrightarrow> secs = sint (SessionMaxAgeDays (rn_config rn)) * 86400)"
proof -
  let ?c = "NewClient (AuthentikForwardAuthURL (rn_config rn))" and ?lg = "log_level_of (LogLevel (rn_config rn))"
  obtain s setting raw where s: "Load vs = Return (Inr (rn_config rn))"
    "rn_services rn = [Authorization (wired e ?c s ?lg), Reflection, Health [[] \<mapsto> SERVING]]"
    "setting \<in> set (settings (db w0))" "text_eq e (st_key setting) ''admin_session_secret''" "st_value setting = Some raw"
    "dbHash s = fst (unwrap_secret raw)" "sessionMaxAge s = SessionMaxAgeDays (rn_config rn)" "0 < sint (sessionMaxAge s)"
    using ready_wired [OF assms(1)] by blast
  have sv: "sv = wired e ?c s ?lg" using assms(2) s(2) by simp
  have exact: "sint (SessionMaxAgeDays (rn_config rn)) \<le> 106751991167300 \<longrightarrow>
      sint (SessionMaxAgeDays (rn_config rn) * 86400) = sint (SessionMaxAgeDays (rn_config rn)) * 86400"
    using s(7,8) by (intro impI seconds_exact) simp_all
  show ?thesis
    using planted_staff [OF assms(3) [unfolded sv]] s(1,3-5) exact
    unfolding sv header_value ghostAdminPath_def s(6,7) by blast
qed

lemma served_cookie_witness:
  "\<exists>rn sv v. fst (main_start sample_platform sample_env sample_vars sample_world) = Inr rn
    \<and> Authorization sv \<in> set (rn_services rn)
    \<and> fst (ext_check sv sample_request session_world) = (deniedRedirectWithCookie ''/ghost/'' v, None)
    \<and> (\<exists>row :: session_row. v = ''ghost-admin-api-session='' @ signCookie (sr_session_id row) ''k3y''
         @ ''; Path=/ghost; HttpOnly; Secure; SameSite=None; Max-Age='' @ ''15552000'')"
proof -
  obtain cfg where cfg: "Load sample_vars = Return (Inr cfg)" "SessionMaxAgeDays cfg = 180"
    "AuthentikForwardAuthURL cfg = ''https://auth.example.com/auth''" using sample_load by blast
  obtain rn where rn: "fst (main_start sample_platform sample_env sample_vars sample_world) = Inr rn"
    using sample_start by blast
  let ?lg = "log_level_of (LogLevel (rn_config rn))"
  obtain s where s: "Load sample_vars = Return (Inr (rn_config rn))"
    "rn_services rn = [Authorization (wired sample_env (NewClient (AuthentikForwardAuthURL (rn_config rn))) s ?lg),
       Reflection, Health [[] \<mapsto> SERVING]]"
    "dbHash s = ''k3y''" "sessionMaxAge s = SessionMaxAgeDays (rn_config rn)"
    using ready_wired [OF rn] by (auto simp: sample_world_def world_of_def sample_db_def sample_secret)
  have c: "rn_config rn = cfg" using s(1) cfg(1) by simp
  have "s = sample_store" using s(3,4) cfg(2) c by (cases s) simp
  with s(2) cfg(3) c have sv: "Authorization (wired sample_env sample_client sample_store ?lg) \<in> set (rn_services rn)"
    by (simp add: sample_client_def)
  let ?v = "buildSetCookieHeader (wired sample_env sample_client sample_store ?lg) (signCookie ''old'' ''k3y'')"
  obtain setting raw and row :: session_row where r: "setting \<in> set (settings (db sample_world))" "st_value setting = Some raw"
    "?v = ''ghost-admin-api-session='' @ signCookie (sr_session_id row) (fst (unwrap_secret raw))
      @ ''; Path=/ghost; HttpOnly; Secure; SameSite=None; Max-Age='' @ int_dec (sint (SessionMaxAgeDays (rn_config rn) * 86400))"
    using served_cookie [OF rn sv sample_plant] by blast
  have "raw = ''k3y''" using r(1,2) by (simp add: sample_world_def world_of_def sample_db_def)
  then have secret: "fst (unwrap_secret raw) = ''k3y''" by (simp add: sample_secret)
  have span: "int_dec (sint (SessionMaxAgeDays (rn_config rn) * 86400)) = ''15552000''"
    by (simp add: c cfg(2) int_dec_def nat_dec.simps digit_char_def char_of_def bit_0)
  have plant: "fst (ext_check (wired sample_env sample_client sample_store ?lg) sample_request session_world)
    = (deniedRedirectWithCookie ''/ghost/'' ?v, None)" using sample_plant [of ?lg] unfolding ghostAdminPath_def .
  show ?thesis
    by (intro exI [of _ rn] exI [of _ "wired sample_env sample_client sample_store ?lg"] exI [of _ ?v] conjI rn sv plant
      exI [of _ row]) (rule r(3) [unfolded secret span])
qed

end
